theory Spec2Isabelle
  imports Main "HOL-Library.Sublist" "HOL-Library.AList"
begin

section \<open>Python values\<close>

text \<open>
  The policy contexts and rule conditions of \<^verbatim>\<open>governance.py\<close> are dictionaries of
  type \<^verbatim>\<open>Dict[str, Any]\<close>. The values a context holds are modelled as the scalar
  values \<^verbatim>\<open>None\<close>, \<^verbatim>\<open>bool\<close>, \<^verbatim>\<open>int\<close> and \<^verbatim>\<open>str\<close>; the values a rule compares them
  with are scalars or (nested) lists. Floats and dictionaries as compared values are
  outside the model.
\<close>

datatype scalar = SNone | SBool bool | SInt int | SStr string

datatype pyval = Atom scalar | PList "pyval list"

datatype py_error = TypeError | ReError | KeyError | ValueError

text \<open>Python's \<^verbatim>\<open>==\<close> on scalars: \<^verbatim>\<open>bool\<close> is a subtype of \<^verbatim>\<open>int\<close>, so \<^verbatim>\<open>True == 1\<close>.\<close>

fun scalar_eq :: "scalar \<Rightarrow> scalar \<Rightarrow> bool" where
  "scalar_eq SNone SNone = True"
| "scalar_eq (SBool a) (SBool b) = (a = b)"
| "scalar_eq (SBool a) (SInt n) = ((if a then 1 else 0) = n)"
| "scalar_eq (SInt n) (SBool a) = (n = (if a then 1 else 0))"
| "scalar_eq (SInt m) (SInt n) = (m = n)"
| "scalar_eq (SStr s) (SStr t) = (s = t)"
| "scalar_eq _ _ = False"

fun py_eq :: "scalar \<Rightarrow> pyval \<Rightarrow> bool" where
  "py_eq s (Atom t) = scalar_eq s t"
| "py_eq s (PList _) = False"

text \<open>
  \<^verbatim>\<open>x in container\<close>: membership by \<^verbatim>\<open>==\<close> in a list, substring test in a string
  (which raises \<^verbatim>\<open>TypeError\<close> unless \<^verbatim>\<open>x\<close> is a string too), \<^verbatim>\<open>TypeError\<close> for a
  container that is \<^verbatim>\<open>None\<close>, a \<^verbatim>\<open>bool\<close> or an \<^verbatim>\<open>int\<close>.
\<close>

fun py_in :: "scalar \<Rightarrow> pyval \<Rightarrow> py_error + bool" where
  "py_in s (PList xs) = Inr (list_ex (py_eq s) xs)"
| "py_in (SStr u) (Atom (SStr t)) = Inr (sublist u t)"
| "py_in _ (Atom _) = Inl TypeError"

text \<open>\<^verbatim>\<open>str(x)\<close> on scalars.\<close>

definition digit_char :: "nat \<Rightarrow> char" where
  "digit_char d = char_of (48 + d)"

function str_of_nat :: "nat \<Rightarrow> string" where
  "str_of_nat n =
     (if n < 10 then [digit_char n] else str_of_nat (n div 10) @ [digit_char (n mod 10)])"
  by pat_completeness auto
termination
  by (relation "measure id") auto

fun py_str :: "scalar \<Rightarrow> string" where
  "py_str SNone = ''None''"
| "py_str (SBool b) = (if b then ''True'' else ''False'')"
| "py_str (SInt i) = (if i < 0 then CHR ''-'' # str_of_nat (nat (- i)) else str_of_nat (nat i))"
| "py_str (SStr s) = s"

text \<open>\<^verbatim>\<open>values in text\<close> where \<^verbatim>\<open>text\<close> is a string: \<^verbatim>\<open>values\<close> must be a string.\<close>

fun str_contains :: "pyval \<Rightarrow> string \<Rightarrow> py_error + bool" where
  "str_contains (Atom (SStr u)) t = Inr (sublist u t)"
| "str_contains _ t = Inl TypeError"

text \<open>
  \<^verbatim>\<open>re.match(pattern, text)\<close> belongs to Python's standard library, not to the
  repository: it is a parameter of the model, a function from the pattern and the text
  to \<open>Some\<close> of whether a match at the start of the text exists, or \<open>None\<close> when the
  pattern does not compile (\<^verbatim>\<open>re.error\<close>). A pattern that is not a string raises
  \<^verbatim>\<open>TypeError\<close>.
\<close>

type_synonym re_match = "string \<Rightarrow> string \<Rightarrow> bool option"

fun py_re_match :: "re_match \<Rightarrow> pyval \<Rightarrow> string \<Rightarrow> py_error + bool" where
  "py_re_match re (Atom (SStr p)) t = (case re p t of None \<Rightarrow> Inl ReError | Some b \<Rightarrow> Inr b)"
| "py_re_match re _ t = Inl TypeError"

section \<open>Governance: enumerations\<close>

datatype Permission =
    READ_LEADS | WRITE_LEADS | DELETE_LEADS
  | READ_ACCOUNTS | WRITE_ACCOUNTS | DELETE_ACCOUNTS
  | READ_OPPORTUNITIES | WRITE_OPPORTUNITIES | DELETE_OPPORTUNITIES
  | EXECUTE_AI_TOOLS | APPROVE_AI_DECISIONS | CONFIGURE_AI_WORKFLOWS | ACCESS_AI_MEMORY
  | SEND_EMAILS | SCHEDULE_MEETINGS | MAKE_CALLS
  | MANAGE_USERS | MANAGE_ROLES | VIEW_ANALYTICS | EXPORT_DATA | CONFIGURE_SYSTEM
  | VIEW_AUDIT_LOGS | MANAGE_COMPLIANCE | DATA_RETENTION

datatype PolicyType =
  DATA_ACCESS | AI_BEHAVIOR | COMMUNICATION | RETENTION | PRIVACY | SECURITY | COMPLIANCE

datatype PolicyAction = ALLOW | DENY | REQUIRE_APPROVAL | LOG_ONLY | REDACT

datatype AuditEventType =
    USER_LOGIN | USER_LOGOUT | EV_DATA_ACCESS | DATA_MODIFICATION | AI_DECISION
  | TOOL_EXECUTION | POLICY_VIOLATION | PERMISSION_DENIED | CONFIGURATION_CHANGE | DATA_EXPORT

section \<open>Policy rules and \<^verbatim>\<open>PolicyRule.matches\<close>\<close>

text \<open>
  A condition value is either a plain value, compared by equality, or a dictionary, of
  which the code reads the entries \<^verbatim>\<open>operator\<close>, \<^verbatim>\<open>values\<close> and \<^verbatim>\<open>value\<close> (each may be
  absent).
\<close>

datatype condition =
    Literal pyval
  | Structured (c_operator: "pyval option") (c_values: "pyval option") (c_value: "pyval option")

type_synonym py_context = "string \<rightharpoonup> scalar"

record PolicyRule =
  rule_id :: string
  name :: string
  description :: string
  policy_type :: PolicyType
  conditions :: "(string \<times> condition) list"
  action :: PolicyAction
  priority :: int
  enabled :: bool

text \<open>\<^verbatim>\<open>context.get(key)\<close>: \<^verbatim>\<open>None\<close> for a key the context lacks.\<close>

definition context_get :: "py_context \<Rightarrow> string \<Rightarrow> scalar" where
  "context_get ctx k = (case ctx k of None \<Rightarrow> SNone | Some v \<Rightarrow> v)"

text \<open>
  One round of the loop body of \<^verbatim>\<open>matches\<close>: \<open>Inr False\<close> is the \<^verbatim>\<open>return False\<close>,
  \<open>Inr True\<close> lets the loop go on, \<open>Inl\<close> is an exception. Exactly one branch of the
  \<^verbatim>\<open>if\<close>/\<^verbatim>\<open>elif\<close> chain can have its operator test true; an operator that is none of
  the five names checks nothing.
\<close>

definition check_condition :: "re_match \<Rightarrow> scalar \<Rightarrow> condition \<Rightarrow> py_error + bool" where
  "check_condition re context_value cond =
     (case cond of
        Literal condition_value \<Rightarrow> Inr (py_eq context_value condition_value)
      | Structured op vs v \<Rightarrow>
          (let operator = (case op of None \<Rightarrow> Atom (SStr ''equals'') | Some x \<Rightarrow> x);
               values = (case vs of Some x \<Rightarrow> x
                         | None \<Rightarrow> (case v of Some y \<Rightarrow> y | None \<Rightarrow> Atom SNone))
           in if operator = Atom (SStr ''equals'') then Inr (py_eq context_value values)
              else if operator = Atom (SStr ''in'') then py_in context_value values
              else if operator = Atom (SStr ''not_in'') then
                (case py_in context_value values of Inl e \<Rightarrow> Inl e | Inr b \<Rightarrow> Inr (\<not> b))
              else if operator = Atom (SStr ''contains'') then
                str_contains values (py_str context_value)
              else if operator = Atom (SStr ''regex'') then
                py_re_match re values (py_str context_value)
              else Inr True))"

fun check_conditions :: "re_match \<Rightarrow> (string \<times> condition) list \<Rightarrow> py_context \<Rightarrow> py_error + bool" where
  "check_conditions re [] ctx = Inr True"
| "check_conditions re ((condition_key, condition_value) # rest) ctx =
     (case check_condition re (context_get ctx condition_key) condition_value of
        Inl e \<Rightarrow> Inl e
      | Inr False \<Rightarrow> Inr False
      | Inr True \<Rightarrow> check_conditions re rest ctx)"

definition matches :: "re_match \<Rightarrow> PolicyRule \<Rightarrow> py_context \<Rightarrow> py_error + bool" where
  "matches re rule ctx =
     (if \<not> enabled rule then Inr False else check_conditions re (conditions rule) ctx)"

section \<open>\<^verbatim>\<open>PolicyEngine.evaluate_policies\<close>\<close>

record violation =
  v_rule_id :: string
  v_rule_name :: string
  v_action :: PolicyAction
  v_description :: string

definition violation_of :: "PolicyRule \<Rightarrow> violation" where
  "violation_of rule =
     \<lparr>v_rule_id = rule_id rule, v_rule_name = name rule,
      v_action = action rule, v_description = description rule\<rparr>"

text \<open>
  The returned dictionary: the early return for an unregistered policy type has no
  \<^verbatim>\<open>context\<close> entry.
\<close>

record evaluation =
  ev_action :: PolicyAction
  ev_violations :: "violation list"
  ev_context :: "py_context option"

type_synonym policies = "PolicyType \<rightharpoonup> PolicyRule list"

text \<open>
  The \<^verbatim>\<open>for rule in self.policies[policy_type]\<close> loop, with the two variables it
  updates; \<^verbatim>\<open>break\<close> returns at once.
\<close>

fun eval_rules ::
  "re_match \<Rightarrow> PolicyRule list \<Rightarrow> py_context \<Rightarrow> violation list \<Rightarrow> PolicyAction
   \<Rightarrow> py_error + (violation list \<times> PolicyAction)" where
  "eval_rules re [] ctx violations final_action = Inr (violations, final_action)"
| "eval_rules re (rule # rest) ctx violations final_action =
     (case matches re rule ctx of
        Inl e \<Rightarrow> Inl e
      | Inr False \<Rightarrow> eval_rules re rest ctx violations final_action
      | Inr True \<Rightarrow>
          (let violations' = violations @ [violation_of rule]
           in if action rule = DENY then Inr (violations', DENY)
              else if action rule = REQUIRE_APPROVAL \<and> final_action = ALLOW then
                eval_rules re rest ctx violations' REQUIRE_APPROVAL
              else if action rule = REDACT \<and> final_action \<in> {ALLOW, LOG_ONLY} then
                eval_rules re rest ctx violations' REDACT
              else if action rule = LOG_ONLY \<and> final_action = ALLOW then
                eval_rules re rest ctx violations' LOG_ONLY
              else eval_rules re rest ctx violations' final_action))"

definition evaluate_policies ::
  "re_match \<Rightarrow> policies \<Rightarrow> PolicyType \<Rightarrow> py_context \<Rightarrow> py_error + evaluation" where
  "evaluate_policies re pols ptype ctx =
     (case pols ptype of
        None \<Rightarrow> Inr \<lparr>ev_action = ALLOW, ev_violations = [], ev_context = None\<rparr>
      | Some rules \<Rightarrow>
          (case eval_rules re rules ctx [] ALLOW of
             Inl e \<Rightarrow> Inl e
           | Inr (violations, final_action) \<Rightarrow>
               Inr \<lparr>ev_action = final_action, ev_violations = violations,
                    ev_context = Some ctx\<rparr>))"

section \<open>\<^verbatim>\<open>PolicyEngine\<close>: construction\<close>

text \<open>
  A row of the \<^verbatim>\<open>policies\<close> table with its rules already deserialised (a row whose
  strings name no policy type or action raises in the constructor and is outside the
  model).
\<close>

record PolicyStorage =
  policy_id :: string
  ps_policy_type :: PolicyType
  rules :: "PolicyRule list"
  is_active :: bool

definition rules_of :: "policies \<Rightarrow> PolicyType \<Rightarrow> PolicyRule list" where
  "rules_of pols t = (case pols t of None \<Rightarrow> [] | Some rs \<Rightarrow> rs)"

text \<open>The first loop of \<^verbatim>\<open>_load_policies\<close>: every rule goes under its row's type.\<close>

fun load_rows :: "PolicyStorage list \<Rightarrow> policies \<Rightarrow> policies" where
  "load_rows [] pols = pols"
| "load_rows (stored_policy # rest) pols =
     load_rows rest
       (pols(ps_policy_type stored_policy \<mapsto>
          rules_of pols (ps_policy_type stored_policy) @ rules stored_policy))"

text \<open>Then every list is sorted by priority (\<^verbatim>\<open>list.sort\<close> is stable, as \<open>sort_key\<close> is).\<close>

definition load_policies :: "PolicyStorage list \<Rightarrow> policies" where
  "load_policies db =
     (let pols = load_rows (filter is_active db) Map.empty
      in (\<lambda>t. map_option (sort_key priority) (pols t)))"

definition default_policies :: "PolicyRule list" where
  "default_policies =
     [\<lparr>rule_id = ''data_access_own_leads'', name = ''Own Leads Access'',
       description = ''Users can only access leads assigned to them'',
       policy_type = DATA_ACCESS,
       conditions =
         [(''resource_type'', Literal (Atom (SStr ''lead''))),
          (''action'', Structured (Some (Atom (SStr ''in'')))
             (Some (PList [Atom (SStr ''read''), Atom (SStr ''write'')])) None)],
       action = REQUIRE_APPROVAL, priority = 100, enabled = True\<rparr>,
      \<lparr>rule_id = ''ai_email_approval'', name = ''AI Email Approval'',
       description = ''AI-generated emails require human approval'',
       policy_type = AI_BEHAVIOR,
       conditions =
         [(''tool_type'', Literal (Atom (SStr ''email''))),
          (''ai_generated'', Literal (Atom (SBool True)))],
       action = REQUIRE_APPROVAL, priority = 100, enabled = True\<rparr>,
      \<lparr>rule_id = ''external_email_restriction'', name = ''External Email Restriction'',
       description = ''Restrict emails to external domains during non-business hours'',
       policy_type = COMMUNICATION,
       conditions =
         [(''email_domain'', Structured (Some (Atom (SStr ''not_in'')))
             (Some (PList [Atom (SStr ''company.com'')])) None),
          (''business_hours'', Literal (Atom (SBool False)))],
       action = DENY, priority = 100, enabled = True\<rparr>,
      \<lparr>rule_id = ''pii_redaction'', name = ''PII Redaction'',
       description = ''Redact personally identifiable information in logs'',
       policy_type = PRIVACY,
       conditions = [(''contains_pii'', Literal (Atom (SBool True)))],
       action = REDACT, priority = 100, enabled = True\<rparr>]"

definition all_policy_types :: "PolicyType list" where
  "all_policy_types =
     [DATA_ACCESS, AI_BEHAVIOR, COMMUNICATION, RETENTION, PRIVACY, SECURITY, COMPLIANCE]"

text \<open>The search for a rule of the same \<^verbatim>\<open>rule_id\<close> under any policy type.\<close>

definition rule_exists :: "policies \<Rightarrow> string \<Rightarrow> bool" where
  "rule_exists pols rid =
     list_ex (\<lambda>t. list_ex (\<lambda>rule. rule_id rule = rid) (rules_of pols t)) all_policy_types"

text \<open>
  The loop of \<^verbatim>\<open>_initialize_default_policies\<close>: a default rule that is not there yet
  is appended to the list of its type. The lists are not sorted again.
\<close>

fun add_defaults :: "PolicyRule list \<Rightarrow> policies \<Rightarrow> policies" where
  "add_defaults [] pols = pols"
| "add_defaults (policy_rule # rest) pols =
     add_defaults rest
       (if rule_exists pols (rule_id policy_rule) then pols
        else pols(policy_type policy_rule \<mapsto>
               rules_of pols (policy_type policy_rule) @ [policy_rule]))"

definition initialize_default_policies :: "policies \<Rightarrow> policies" where
  "initialize_default_policies pols = add_defaults default_policies pols"

text \<open>\<^verbatim>\<open>PolicyEngine.__init__\<close>: load, then seed the defaults.\<close>

definition PolicyEngine_init :: "PolicyStorage list \<Rightarrow> policies" where
  "PolicyEngine_init db = initialize_default_policies (load_policies db)"

section \<open>\<^verbatim>\<open>PolicyEngine.enforce_policy\<close>\<close>

text \<open>
  The evaluation, updated with the dictionary of the handler of its action. All five
  handlers are registered by the constructor, so one always runs. An entry a handler
  does not set is \<open>None\<close>.
\<close>

record enforcement = evaluation +
  allowed :: bool
  requires_approval :: "bool option"
  message :: string
  logged :: "bool option"
  redacted :: "bool option"
  redacted_context :: "py_context option"
  approval_context :: "py_context option"

definition sensitive_fields :: "string list" where
  "sensitive_fields = [''ssn'', ''credit_card'', ''password'', ''api_key'', ''token'']"

definition redact_sensitive_data :: "py_context \<Rightarrow> py_context" where
  "redact_sensitive_data ctx =
     fold (\<lambda>field redacted.
             if redacted field \<noteq> None then redacted(field \<mapsto> SStr ''[REDACTED]'')
             else redacted)
       sensitive_fields ctx"

definition run_handler :: "py_context \<Rightarrow> evaluation \<Rightarrow> enforcement" where
  "run_handler ctx ev =
     (let base = evaluation.extend ev
            (enforcement.fields True None [] None None None None)
      in case ev_action ev of
           ALLOW \<Rightarrow> base\<lparr>allowed := True, message := ''Action allowed''\<rparr>
         | DENY \<Rightarrow> base\<lparr>allowed := False, message := ''Action denied by policy''\<rparr>
         | REQUIRE_APPROVAL \<Rightarrow>
             base\<lparr>allowed := False, requires_approval := Some True,
                  message := ''Action requires approval'', approval_context := Some ctx\<rparr>
         | LOG_ONLY \<Rightarrow> base\<lparr>allowed := True, logged := Some True, message := ''Action logged''\<rparr>
         | REDACT \<Rightarrow>
             base\<lparr>allowed := True, redacted := Some True,
                  message := ''Sensitive data redacted'',
                  redacted_context := Some (redact_sensitive_data ctx)\<rparr>)"

definition enforce_policy ::
  "re_match \<Rightarrow> policies \<Rightarrow> PolicyType \<Rightarrow> py_context \<Rightarrow> py_error + enforcement" where
  "enforce_policy re pols ptype ctx =
     (case evaluate_policies re pols ptype ctx of
        Inl e \<Rightarrow> Inl e
      | Inr evaluation_result \<Rightarrow> Inr (run_handler ctx evaluation_result))"

section \<open>\<^verbatim>\<open>RBACManager\<close>\<close>

definition permission_values :: "(string \<times> Permission) list" where
  "permission_values =
     [(''read_leads'', READ_LEADS), (''write_leads'', WRITE_LEADS),
      (''delete_leads'', DELETE_LEADS), (''read_accounts'', READ_ACCOUNTS),
      (''write_accounts'', WRITE_ACCOUNTS), (''delete_accounts'', DELETE_ACCOUNTS),
      (''read_opportunities'', READ_OPPORTUNITIES),
      (''write_opportunities'', WRITE_OPPORTUNITIES),
      (''delete_opportunities'', DELETE_OPPORTUNITIES),
      (''execute_ai_tools'', EXECUTE_AI_TOOLS),
      (''approve_ai_decisions'', APPROVE_AI_DECISIONS),
      (''configure_ai_workflows'', CONFIGURE_AI_WORKFLOWS),
      (''access_ai_memory'', ACCESS_AI_MEMORY), (''send_emails'', SEND_EMAILS),
      (''schedule_meetings'', SCHEDULE_MEETINGS), (''make_calls'', MAKE_CALLS),
      (''manage_users'', MANAGE_USERS), (''manage_roles'', MANAGE_ROLES),
      (''view_analytics'', VIEW_ANALYTICS), (''export_data'', EXPORT_DATA),
      (''configure_system'', CONFIGURE_SYSTEM), (''view_audit_logs'', VIEW_AUDIT_LOGS),
      (''manage_compliance'', MANAGE_COMPLIANCE), (''data_retention'', DATA_RETENTION)]"

text \<open>\<^verbatim>\<open>Permission(text)\<close>: \<open>None\<close> is the \<^verbatim>\<open>ValueError\<close>.\<close>

definition Permission_of :: "string \<Rightarrow> Permission option" where
  "Permission_of v = map_of permission_values v"

text \<open>\<^verbatim>\<open>permission.value\<close>.\<close>

definition value_of :: "Permission \<Rightarrow> string" where
  "value_of p = (case map_of (map (\<lambda>(v, q). (q, v)) permission_values) p of
                   Some v \<Rightarrow> v | None \<Rightarrow> [])"

text \<open>
  The manager with the tables it queries: the rows of \<^verbatim>\<open>roles\<close> (by their id),
  \<^verbatim>\<open>user_roles\<close> (user id, role id) and \<^verbatim>\<open>role_permissions\<close> (role id, permission
  text), and its two caches. Clock readings are seconds as integers.
\<close>

record RBACManager =
  roles :: "string list"
  user_roles :: "(string \<times> string) list"
  role_permissions :: "(string \<times> string) list"
  permission_cache :: "string \<rightharpoonup> Permission set"
  cache_timestamps :: "string \<rightharpoonup> int"

definition cache_ttl :: int where
  "cache_ttl = 15 * 60"

definition default_roles :: "(string \<times> Permission list) list" where
  "default_roles =
     [(''admin'', map snd permission_values),
      (''sales_manager'',
         [READ_LEADS, WRITE_LEADS, READ_ACCOUNTS, WRITE_ACCOUNTS,
          READ_OPPORTUNITIES, WRITE_OPPORTUNITIES, EXECUTE_AI_TOOLS, APPROVE_AI_DECISIONS,
          SEND_EMAILS, SCHEDULE_MEETINGS, VIEW_ANALYTICS]),
      (''sales_rep'',
         [READ_LEADS, WRITE_LEADS, READ_ACCOUNTS, WRITE_ACCOUNTS,
          READ_OPPORTUNITIES, WRITE_OPPORTUNITIES, EXECUTE_AI_TOOLS,
          SEND_EMAILS, SCHEDULE_MEETINGS]),
      (''viewer'', [READ_LEADS, READ_ACCOUNTS, READ_OPPORTUNITIES, VIEW_ANALYTICS])]"

definition initialize_default_roles :: "RBACManager \<Rightarrow> RBACManager" where
  "initialize_default_roles rb =
     fold (\<lambda>(role, perms) db.
             if role \<in> set (roles db) then db
             else db\<lparr>roles := roles db @ [role],
                     role_permissions :=
                       role_permissions db @ map (\<lambda>p. (role, value_of p)) perms\<rparr>)
       default_roles rb"

text \<open>
  \<^verbatim>\<open>get_user_permissions\<close>: the cached set while it is younger than the time to live,
  otherwise the permissions of the user's roles, read from the tables and cached. A
  permission text that names no permission is skipped.
\<close>

definition query_permissions :: "RBACManager \<Rightarrow> string \<Rightarrow> Permission set" where
  "query_permissions rb user =
     set (concat
       (map (\<lambda>(u, role).
               if u = user then
                 concat (map (\<lambda>(r, text).
                                if r = role then
                                  (case Permission_of text of None \<Rightarrow> [] | Some p \<Rightarrow> [p])
                                else [])
                           (role_permissions rb))
               else [])
          (user_roles rb)))"

definition get_user_permissions :: "int \<Rightarrow> RBACManager \<Rightarrow> string \<Rightarrow> Permission set \<times> RBACManager" where
  "get_user_permissions now rb user =
     (case (permission_cache rb user, cache_timestamps rb user) of
        (Some cached, Some stamp) \<Rightarrow>
          if now - stamp < cache_ttl then (cached, rb)
          else (query_permissions rb user,
                rb\<lparr>permission_cache := (permission_cache rb)(user \<mapsto> query_permissions rb user),
                   cache_timestamps := (cache_timestamps rb)(user \<mapsto> now)\<rparr>)
      | _ \<Rightarrow>
          (query_permissions rb user,
           rb\<lparr>permission_cache := (permission_cache rb)(user \<mapsto> query_permissions rb user),
              cache_timestamps := (cache_timestamps rb)(user \<mapsto> now)\<rparr>))"

definition has_permission :: "int \<Rightarrow> RBACManager \<Rightarrow> string \<Rightarrow> Permission \<Rightarrow> bool \<times> RBACManager" where
  "has_permission now rb user permission =
     (let (user_permissions, rb') = get_user_permissions now rb user
      in (permission \<in> user_permissions, rb'))"

definition clear_user_cache :: "RBACManager \<Rightarrow> string \<Rightarrow> RBACManager" where
  "clear_user_cache rb user =
     rb\<lparr>permission_cache := (permission_cache rb)(user := None),
        cache_timestamps := (cache_timestamps rb)(user := None)\<rparr>"

definition assign_role :: "RBACManager \<Rightarrow> string \<Rightarrow> string \<Rightarrow> RBACManager" where
  "assign_role rb user role =
     (if (user, role) \<in> set (user_roles rb) then rb
      else clear_user_cache (rb\<lparr>user_roles := user_roles rb @ [(user, role)]\<rparr>) user)"

section \<open>\<^verbatim>\<open>AuditManager.log_event\<close>\<close>

record AuditLog =
  audit_id :: string
  event_type :: AuditEventType
  al_user_id :: string
  al_resource_type :: "string option"
  al_resource_id :: "string option"
  al_action :: string
  details :: py_context
  policy_violations :: "violation list"

text \<open>
  The call appends one row. \<^verbatim>\<open>details or {}\<close> and \<^verbatim>\<open>policy_violations or []\<close> turn
  a missing argument into the empty value.
\<close>

definition log_event ::
  "string \<Rightarrow> AuditLog list \<Rightarrow> AuditEventType \<Rightarrow> string \<Rightarrow> string \<Rightarrow> string option
   \<Rightarrow> string option \<Rightarrow> py_context option \<Rightarrow> violation list option \<Rightarrow> AuditLog list" where
  "log_event uuid table ev user act rtype rid dets viols =
     table @
       [\<lparr>audit_id = uuid, event_type = ev, al_user_id = user, al_resource_type = rtype,
         al_resource_id = rid, al_action = act,
         details = (case dets of None \<Rightarrow> Map.empty | Some d \<Rightarrow> d),
         policy_violations = (case viols of None \<Rightarrow> [] | Some vs \<Rightarrow> vs)\<rparr>]"

section \<open>\<^verbatim>\<open>GovernanceSystem\<close>\<close>

record ApprovalRequest =
  approval_id :: string
  ar_user_id :: string
  ar_action :: string
  ar_context :: py_context
  ar_policy_result :: enforcement
  requested_at :: int
  status :: string
  approver_user_id :: "string option"
  approved_at :: "int option"
  comments :: "string option"

text \<open>
  The system's state: the three components and the approval queue. The field
  \<open>enforce_calls\<close> is not in the source: it counts the calls of
  \<^verbatim>\<open>PolicyEngine.enforce_policy\<close>, so that a statement can say whether one took place.
\<close>

record GovernanceSystem =
  rbac :: RBACManager
  policy_engine :: policies
  audit :: "AuditLog list"
  approval_queue :: "string \<rightharpoonup> ApprovalRequest"
  enforce_calls :: nat

text \<open>
  What one call reads from the clock and the random generator: the time in seconds,
  the text of \<^verbatim>\<open>datetime.utcnow().isoformat()\<close>, and the \<^verbatim>\<open>uuid4\<close> drawn for the audit
  row and for the approval request.
\<close>

record ambient =
  clock :: int
  isoformat :: string
  audit_uuid :: string
  approval_uuid :: string

record authorization =
  authorized :: bool
  reason :: "string option"
  a_message :: string
  a_approval_id :: "string option"
  a_violations :: "violation list option"
  policy_result :: "enforcement option"

definition map_action_to_permission :: "string \<Rightarrow> string option \<Rightarrow> Permission option" where
  "map_action_to_permission act rtype =
     (case rtype of
        None \<Rightarrow> None
      | Some rt \<Rightarrow>
          map_of
            [((''read'', ''lead''), READ_LEADS),
             ((''write'', ''lead''), WRITE_LEADS),
             ((''delete'', ''lead''), DELETE_LEADS),
             ((''read'', ''account''), READ_ACCOUNTS),
             ((''write'', ''account''), WRITE_ACCOUNTS),
             ((''delete'', ''account''), DELETE_ACCOUNTS),
             ((''read'', ''opportunity''), READ_OPPORTUNITIES),
             ((''write'', ''opportunity''), WRITE_OPPORTUNITIES),
             ((''delete'', ''opportunity''), DELETE_OPPORTUNITIES),
             ((''execute'', ''ai_tool''), EXECUTE_AI_TOOLS),
             ((''approve'', ''ai_decision''), APPROVE_AI_DECISIONS),
             ((''send'', ''email''), SEND_EMAILS),
             ((''schedule'', ''meeting''), SCHEDULE_MEETINGS)]
            (act, rt))"

definition map_action_to_policy_type :: "string \<Rightarrow> string option \<Rightarrow> PolicyType" where
  "map_action_to_policy_type act rtype =
     (if act \<in> set [''read'', ''write'', ''delete''] then DATA_ACCESS
      else if act \<in> set [''execute''] \<and> rtype = Some ''ai_tool'' then AI_BEHAVIOR
      else if act \<in> set [''send'', ''schedule''] then COMMUNICATION
      else SECURITY)"

definition opt_str :: "string option \<Rightarrow> scalar" where
  "opt_str x = (case x of None \<Rightarrow> SNone | Some s \<Rightarrow> SStr s)"

text \<open>The context of the call: the caller's entries override the five built ones.\<close>

definition full_context_of ::
  "ambient \<Rightarrow> string \<Rightarrow> string \<Rightarrow> string option \<Rightarrow> string option \<Rightarrow> py_context option
   \<Rightarrow> py_context" where
  "full_context_of amb user act rtype rid ctx =
     [''user_id'' \<mapsto> SStr user, ''action'' \<mapsto> SStr act, ''resource_type'' \<mapsto> opt_str rtype,
      ''resource_id'' \<mapsto> opt_str rid, ''timestamp'' \<mapsto> SStr (isoformat amb)]
     ++ (case ctx of None \<Rightarrow> Map.empty | Some c \<Rightarrow> c)"

definition queue_for_approval ::
  "ambient \<Rightarrow> GovernanceSystem \<Rightarrow> string \<Rightarrow> string \<Rightarrow> py_context \<Rightarrow> enforcement
   \<Rightarrow> GovernanceSystem" where
  "queue_for_approval amb g user act ctx pr =
     g\<lparr>approval_queue := (approval_queue g)(approval_uuid amb \<mapsto>
         \<lparr>approval_id = approval_uuid amb, ar_user_id = user, ar_action = act,
          ar_context = ctx, ar_policy_result = pr, requested_at = clock amb,
          status = ''pending'', approver_user_id = None, approved_at = None,
          comments = None\<rparr>)\<rparr>"

text \<open>
  The part of \<^verbatim>\<open>authorize_action\<close> after the permission check: the policy is enforced,
  the attempt is logged with the violations found, and the result is read. An exception
  of the policy evaluation leaves the call before anything is logged.
\<close>

definition authorize_by_policy ::
  "re_match \<Rightarrow> ambient \<Rightarrow> GovernanceSystem \<Rightarrow> string \<Rightarrow> string \<Rightarrow> string option
   \<Rightarrow> string option \<Rightarrow> py_context \<Rightarrow> GovernanceSystem \<times> (py_error + authorization)" where
  "authorize_by_policy re amb g user act rtype rid full_context =
     (let ptype = map_action_to_policy_type act rtype;
          g1 = g\<lparr>enforce_calls := Suc (enforce_calls g)\<rparr>
      in case enforce_policy re (policy_engine g1) ptype full_context of
           Inl e \<Rightarrow> (g1, Inl e)
         | Inr pr \<Rightarrow>
             (let g2 = g1\<lparr>audit :=
                         log_event (audit_uuid amb) (audit g1)
                           (if prefix ''read'' act then EV_DATA_ACCESS else DATA_MODIFICATION)
                           user act rtype rid (Some full_context) (Some (ev_violations pr))\<rparr>
              in if \<not> allowed pr then
                   (if requires_approval pr = Some True then
                      (queue_for_approval amb g2 user act full_context pr,
                       Inr \<lparr>authorized = False, reason = Some ''requires_approval'',
                            a_message = ''Action requires approval from authorized personnel'',
                            a_approval_id = Some (approval_uuid amb), a_violations = None,
                            policy_result = None\<rparr>)
                    else
                      (g2,
                       Inr \<lparr>authorized = False, reason = Some ''policy_violation'',
                            a_message = message pr, a_approval_id = None,
                            a_violations = Some (ev_violations pr), policy_result = None\<rparr>))
                 else
                   (g2,
                    Inr \<lparr>authorized = True, reason = None, a_message = ''Action authorized'',
                         a_approval_id = None, a_violations = None,
                         policy_result = Some pr\<rparr>)))"

definition authorize_action ::
  "re_match \<Rightarrow> ambient \<Rightarrow> GovernanceSystem \<Rightarrow> string \<Rightarrow> string \<Rightarrow> string option
   \<Rightarrow> string option \<Rightarrow> py_context option \<Rightarrow> GovernanceSystem \<times> (py_error + authorization)" where
  "authorize_action re amb g user act rtype rid ctx =
     (let full_context = full_context_of amb user act rtype rid ctx
      in case map_action_to_permission act rtype of
           None \<Rightarrow> authorize_by_policy re amb g user act rtype rid full_context
         | Some required_permission \<Rightarrow>
             (let (held, rb) = has_permission (clock amb) (rbac g) user required_permission;
                  g0 = g\<lparr>rbac := rb\<rparr>
              in if \<not> held then
                   (g0\<lparr>audit :=
                        log_event (audit_uuid amb) (audit g0) PERMISSION_DENIED user act
                          rtype rid (Some full_context) None\<rparr>,
                    Inr \<lparr>authorized = False, reason = Some ''insufficient_permissions'',
                         a_message =
                           ''User lacks required permission: '' @ value_of required_permission,
                         a_approval_id = None, a_violations = None, policy_result = None\<rparr>)
                 else authorize_by_policy re amb g0 user act rtype rid full_context))"

record approval_result =
  success :: bool
  r_approved :: "bool option"
  r_message :: string

definition approve_action ::
  "ambient \<Rightarrow> GovernanceSystem \<Rightarrow> string \<Rightarrow> string \<Rightarrow> bool \<Rightarrow> string option
   \<Rightarrow> GovernanceSystem \<times> approval_result" where
  "approve_action amb g aid approver approved cmts =
     (case approval_queue g aid of
        None \<Rightarrow>
          (g, \<lparr>success = False, r_approved = None,
               r_message = ''Approval request not found''\<rparr>)
      | Some approval_request \<Rightarrow>
          (let (held, rb) = has_permission (clock amb) (rbac g) approver APPROVE_AI_DECISIONS;
               g0 = g\<lparr>rbac := rb\<rparr>
           in if \<not> held then
                (g0, \<lparr>success = False, r_approved = None,
                      r_message = ''Insufficient permissions to approve''\<rparr>)
              else
                (g0\<lparr>approval_queue := (approval_queue g0)(aid \<mapsto>
                       approval_request
                         \<lparr>status := (if approved then ''approved'' else ''denied''),
                          approver_user_id := Some approver,
                          approved_at := Some (clock amb),
                          comments := cmts\<rparr>),
                    audit :=
                      log_event (audit_uuid amb) (audit g0) AI_DECISION approver
                        (if approved then ''approve_action'' else ''deny_action'') None None
                        (Some [''approval_id'' \<mapsto> SStr aid,
                               ''original_user_id'' \<mapsto> SStr (ar_user_id approval_request),
                               ''original_action'' \<mapsto> SStr (ar_action approval_request),
                               ''approved'' \<mapsto> SBool approved,
                               ''comments'' \<mapsto> opt_str cmts])
                        None\<rparr>,
                 \<lparr>success = True, r_approved = Some approved,
                  r_message = ''Action '' @ (if approved then ''approved'' else ''denied'')\<rparr>)))"

text \<open>\<^verbatim>\<open>GovernanceSystem.__init__\<close> on the stored tables.\<close>

definition GovernanceSystem_init :: "RBACManager \<Rightarrow> PolicyStorage list \<Rightarrow> AuditLog list \<Rightarrow> GovernanceSystem" where
  "GovernanceSystem_init tables stored_policies audit_table =
     \<lparr>rbac = initialize_default_roles
              (tables\<lparr>permission_cache := Map.empty, cache_timestamps := Map.empty\<rparr>),
      policy_engine = PolicyEngine_init stored_policies,
      audit = audit_table,
      approval_queue = Map.empty,
      enforce_calls = 0\<rparr>"

section \<open>Workflow engine: data\<close>

datatype WorkflowStatus = DRAFT | ACTIVE | PAUSED | COMPLETED | FAILED | CANCELLED

datatype StepStatus =
  STEP_PENDING | STEP_RUNNING | STEP_COMPLETED | STEP_FAILED | STEP_SKIPPED | STEP_WAITING

datatype ActionType =
  AI_TOOL | HUMAN_TASK | CONDITION | DELAY | NOTIFICATION | DATA_UPDATE | WORKFLOW_TRIGGER

text \<open>A dictionary with string keys, in insertion order.\<close>

type_synonym py_dict = "(string \<times> pyval) list"

datatype config_value = Plain pyval | Nested py_dict

record WorkflowContext =
  wc_workflow_id :: string
  execution_id :: string
  data :: "string \<rightharpoonup> pyval"
  variables :: "string \<rightharpoonup> pyval"

text \<open>An entry of \<^verbatim>\<open>step.conditions\<close>: the dictionary's \<^verbatim>\<open>step\<close> and \<^verbatim>\<open>result\<close>.\<close>

record step_condition =
  cond_step :: "string option"
  cond_result :: "pyval option"

text \<open>
  A step as the definition declares it. The fields the engine writes while it runs
  (\<^verbatim>\<open>status\<close>, \<^verbatim>\<open>result\<close>, \<^verbatim>\<open>error\<close>) are kept per step id in the run's state below;
  the two timestamps are left out.
\<close>

record WorkflowStep =
  step_id :: string
  step_name :: string
  action_type :: ActionType
  config :: "(string \<times> config_value) list"
  dependencies :: "string list"
  step_conditions :: "step_condition list"
  timeout_seconds :: "int option"
  retry_count :: int
  max_retries :: int

record WorkflowDefinition =
  wf_id :: string
  wf_name :: string
  steps :: "WorkflowStep list"
  wf_variables :: "string \<rightharpoonup> pyval"

record WorkflowExecution =
  ex_id :: string
  ex_workflow_id :: string
  ex_status :: WorkflowStatus
  ex_context :: WorkflowContext
  current_step :: "string option"
  completed_steps :: "string set"
  failed_steps :: "string set"
  triggered_by :: string

text \<open>The dictionary an executor returns: its \<^verbatim>\<open>success\<close> and \<^verbatim>\<open>data\<close>, and the rest.\<close>

record step_result =
  sr_success :: bool
  sr_data :: "py_dict option"
  sr_other :: py_dict

section \<open>\<^verbatim>\<open>AIToolExecutor\<close>\<close>

text \<open>
  \<^verbatim>\<open>_substitute_variables\<close>: a string value that starts with \<^verbatim>\<open>${\<close> is looked up,
  without its first two characters and its last one, in \<^verbatim>\<open>context.variables\<close>, and
  stays as it is when the name is not bound there.
\<close>

definition substitute_variables :: "py_dict \<Rightarrow> WorkflowContext \<Rightarrow> py_dict" where
  "substitute_variables parameters ctx =
     map (\<lambda>(key, v).
            case v of
              Atom (SStr s) \<Rightarrow>
                if prefix ''${'' s then
                  (let var_name = butlast (drop 2 s)
                   in (key, case variables ctx var_name of None \<Rightarrow> v | Some x \<Rightarrow> x))
                else (key, v)
            | _ \<Rightarrow> (key, v))
       parameters"

text \<open>
  The tool library is outside the model: \<^verbatim>\<open>execute_tool\<close> is a parameter, which raises
  or returns an execution with an optional result (success, data) and a tool id.
\<close>

datatype tool_execution =
    ToolRaised string
  | ToolReturned "(bool \<times> py_dict option) option" string

type_synonym execute_tool = "config_value option \<Rightarrow> py_dict \<Rightarrow> tool_execution"

datatype exec_outcome = Returned step_result | Raised string | TimedOut

text \<open>The name of a value's type, as it stands in the text of an \<^verbatim>\<open>AttributeError\<close>.\<close>

fun type_name :: "pyval \<Rightarrow> string" where
  "type_name (Atom SNone) = ''NoneType''"
| "type_name (Atom (SBool _)) = ''bool''"
| "type_name (Atom (SInt _)) = ''int''"
| "type_name (Atom (SStr _)) = ''str''"
| "type_name (PList _) = ''list''"

definition AIToolExecutor_execute ::
  "execute_tool \<Rightarrow> WorkflowStep \<Rightarrow> WorkflowContext \<Rightarrow> exec_outcome" where
  "AIToolExecutor_execute lib step ctx =
     (let tool_name = map_of (config step) ''tool_name''
      in case map_of (config step) ''parameters'' of
           Some (Plain v) \<Rightarrow>
             Raised ([CHR 0x27] @ type_name v @ [CHR 0x27] @ '' object has no attribute ''
                     @ [CHR 0x27] @ ''items'' @ [CHR 0x27])
         | other \<Rightarrow>
             (let parameters = (case other of Some (Nested d) \<Rightarrow> d | _ \<Rightarrow> [])
              in case lib tool_name (substitute_variables parameters ctx) of
                   ToolRaised e \<Rightarrow> Raised e
                 | ToolReturned res tool_id \<Rightarrow>
                     Returned
                       \<lparr>sr_success = (case res of None \<Rightarrow> False | Some (ok, _) \<Rightarrow> ok),
                        sr_data = (case res of None \<Rightarrow> None | Some (_, d) \<Rightarrow> d),
                        sr_other = [(''execution_id'', Atom (SStr tool_id))]\<rparr>))"

section \<open>\<^verbatim>\<open>WorkflowEngine\<close>\<close>

text \<open>
  An executor awaited by the engine: from the step, the context and the timeout given to
  \<^verbatim>\<open>asyncio.wait_for\<close> (\<open>None\<close> when the executor is awaited directly) to what the
  \<^verbatim>\<open>await\<close> yields: a result, an exception with its text, or \<^verbatim>\<open>asyncio.TimeoutError\<close>.
  The executors are a parameter of the engine (its \<^verbatim>\<open>executors\<close> dictionary).
\<close>

type_synonym executor = "WorkflowStep \<Rightarrow> WorkflowContext \<Rightarrow> int option \<Rightarrow> exec_outcome"

record WorkflowEngine =
  workflows :: "string \<rightharpoonup> WorkflowDefinition"
  executors :: "ActionType \<rightharpoonup> executor"

text \<open>
  What a run logs, in order. The log is not in the source; it records the moments at
  which \<^verbatim>\<open>_execute_step\<close> is entered for a step and at which the step's id is added to
  \<^verbatim>\<open>completed_steps\<close> or to \<^verbatim>\<open>failed_steps\<close>.
\<close>

datatype event = Started string | Completed string | Failed string

text \<open>
  The state of \<^verbatim>\<open>_execute_workflow\<close>: the execution, the local dictionary
  \<^verbatim>\<open>remaining_steps\<close> (step id to step, in insertion order), the fields written on the
  step objects, by step id, and the log.
\<close>

record run_state = WorkflowExecution +
  remaining_steps :: "(string \<times> WorkflowStep) list"
  step_status :: "string \<rightharpoonup> StepStatus"
  step_result :: "string \<rightharpoonup> step_result"
  step_error :: "string \<rightharpoonup> string"
  events :: "event list"

definition check_step_conditions :: "WorkflowStep \<Rightarrow> run_state \<Rightarrow> bool" where
  "check_step_conditions step s =
     list_all (\<lambda>c. case cond_step c of
                      None \<Rightarrow> False
                    | Some dep_step \<Rightarrow> dep_step \<in> completed_steps s)
       (step_conditions step)"

definition action_type_name :: "ActionType \<Rightarrow> string" where
  "action_type_name a =
     (case a of AI_TOOL \<Rightarrow> ''ActionType.AI_TOOL'' | HUMAN_TASK \<Rightarrow> ''ActionType.HUMAN_TASK''
      | CONDITION \<Rightarrow> ''ActionType.CONDITION'' | DELAY \<Rightarrow> ''ActionType.DELAY''
      | NOTIFICATION \<Rightarrow> ''ActionType.NOTIFICATION'' | DATA_UPDATE \<Rightarrow> ''ActionType.DATA_UPDATE''
      | WORKFLOW_TRIGGER \<Rightarrow> ''ActionType.WORKFLOW_TRIGGER'')"

text \<open>
  \<^verbatim>\<open>_execute_step\<close>: the new state, and \<open>Some\<close> of the exception's text when the call
  raises. A missing executor raises before the \<^verbatim>\<open>try\<close>, with the step left running.
\<close>

definition execute_step ::
  "(ActionType \<rightharpoonup> executor) \<Rightarrow> WorkflowStep \<Rightarrow> run_state \<Rightarrow> run_state \<times> string option" where
  "execute_step exs step s =
     (let sid = step_id step;
          s1 = s\<lparr>step_status := (step_status s)(sid \<mapsto> STEP_RUNNING),
                 current_step := Some sid,
                 events := events s @ [Started sid]\<rparr>
      in case exs (action_type step) of
           None \<Rightarrow>
             (s1, Some (''No executor found for action type '' @ [CHR 0x27]
                        @ action_type_name (action_type step) @ [CHR 0x27]))
         | Some executor \<Rightarrow>
             (case executor step (ex_context s1)
                     (case timeout_seconds step of
                        None \<Rightarrow> None
                      | Some t \<Rightarrow> if t \<noteq> 0 then Some t else None) of
                Returned result \<Rightarrow>
                  (s1\<lparr>step_result := (step_result s1)(sid \<mapsto> result),
                      step_status := (step_status s1)(sid \<mapsto> STEP_COMPLETED),
                      ex_context :=
                        (case sr_data result of
                           Some d \<Rightarrow>
                             if sr_success result \<and> d \<noteq> [] then
                               (ex_context s1)\<lparr>data := data (ex_context s1) ++ map_of d\<rparr>
                             else ex_context s1
                         | None \<Rightarrow> ex_context s1)\<rparr>,
                   None)
              | TimedOut \<Rightarrow>
                  (s1\<lparr>step_status := (step_status s1)(sid \<mapsto> STEP_FAILED),
                      step_error := (step_error s1)(sid \<mapsto> ''Step execution timed out'')\<rparr>,
                   Some [])
              | Raised e \<Rightarrow>
                  (s1\<lparr>step_status := (step_status s1)(sid \<mapsto> STEP_FAILED),
                      step_error := (step_error s1)(sid \<mapsto> e)\<rparr>,
                   Some e)))"

text \<open>
  \<^verbatim>\<open>remaining_steps.pop(step.id)\<close>: \<open>None\<close> is the \<^verbatim>\<open>KeyError\<close> for an id that is not
  a key.
\<close>

definition pop :: "string \<Rightarrow> (string \<times> WorkflowStep) list \<Rightarrow> (string \<times> WorkflowStep) list option" where
  "pop k d = (if k \<in> fst ` set d then Some (AList.delete k d) else None)"

text \<open>
  The \<^verbatim>\<open>except\<close> block of the loop body. \<open>Inl\<close> is an exception that leaves the block
  (the \<^verbatim>\<open>KeyError\<close> of its \<^verbatim>\<open>pop\<close>) and so the whole loop.
\<close>

definition step_failed :: "WorkflowStep \<Rightarrow> string \<Rightarrow> run_state \<Rightarrow> run_state + run_state" where
  "step_failed step e s =
     (let sid = step_id step;
          s1 = s\<lparr>step_error := (step_error s)(sid \<mapsto> e),
                 step_status := (step_status s)(sid \<mapsto> STEP_FAILED),
                 failed_steps := insert sid (failed_steps s),
                 events := events s @ [Failed sid]\<rparr>
      in case pop sid (remaining_steps s1) of
           None \<Rightarrow> Inl s1
         | Some rest \<Rightarrow> Inr (s1\<lparr>remaining_steps := rest\<rparr>))"

text \<open>The body of \<^verbatim>\<open>for step in ready_steps\<close>: the \<^verbatim>\<open>try\<close> and its \<^verbatim>\<open>except\<close>.\<close>

definition run_step ::
  "(ActionType \<rightharpoonup> executor) \<Rightarrow> WorkflowStep \<Rightarrow> run_state \<Rightarrow> run_state + run_state" where
  "run_step exs step s =
     (case execute_step exs step s of
        (s1, Some e) \<Rightarrow> step_failed step e s1
      | (s1, None) \<Rightarrow>
          (let sid = step_id step;
               s2 = s1\<lparr>completed_steps := insert sid (completed_steps s1),
                       events := events s1 @ [Completed sid]\<rparr>
           in case pop sid (remaining_steps s2) of
                None \<Rightarrow> step_failed step ([CHR 0x27] @ sid @ [CHR 0x27]) s2
              | Some rest \<Rightarrow> Inr (s2\<lparr>remaining_steps := rest\<rparr>)))"

fun run_ready ::
  "(ActionType \<rightharpoonup> executor) \<Rightarrow> WorkflowStep list \<Rightarrow> run_state \<Rightarrow> run_state + run_state" where
  "run_ready exs [] s = Inr s"
| "run_ready exs (step # rest) s =
     (case run_step exs step s of
        Inl s' \<Rightarrow> Inl s'
      | Inr s' \<Rightarrow> run_ready exs rest s')"

definition ready_steps :: "run_state \<Rightarrow> WorkflowStep list" where
  "ready_steps s =
     filter (\<lambda>step. list_all (\<lambda>dep. dep \<in> completed_steps s) (dependencies step)
                    \<and> check_step_conditions step s)
       (map snd (remaining_steps s))"

lemma pop_length: "pop k d = Some r \<Longrightarrow> length r < length d"
proof -
  assume h: "pop k d = Some r"
  then have k: "k \<in> fst ` set d" and r: "r = AList.delete k d"
    by (auto simp: pop_def split: if_splits)
  from k obtain v where "(k, v) \<in> set d" by auto
  then have "length (filter (\<lambda>(k', _). k \<noteq> k') d) < length d"
    by (intro length_filter_less[of "(k, v)"]) auto
  with r show ?thesis by (simp add: AList.delete_eq)
qed

lemma execute_step_remaining:
  "remaining_steps (fst (execute_step exs step s)) = remaining_steps s"
  by (simp add: execute_step_def Let_def split: option.splits exec_outcome.splits)

lemma step_failed_length:
  "step_failed step e s = Inr s' \<Longrightarrow> length (remaining_steps s') < length (remaining_steps s)"
  by (auto simp: step_failed_def Let_def split: option.splits dest: pop_length)

lemma run_step_length:
  assumes "run_step exs step s = Inr s'"
  shows "length (remaining_steps s') < length (remaining_steps s)"
proof (cases "execute_step exs step s")
  case (Pair s1 r)
  then have rem: "remaining_steps s1 = remaining_steps s"
    using execute_step_remaining[of exs step s] by simp
  show ?thesis
  proof (cases r)
    case (Some e)
    with assms Pair have "step_failed step e s1 = Inr s'" by (simp add: run_step_def)
    then show ?thesis using step_failed_length rem by metis
  next
    case None
    with assms Pair rem show ?thesis
      by (auto simp: run_step_def Let_def split: option.splits
               dest!: pop_length step_failed_length)
  qed
qed

lemma run_ready_length:
  "run_ready exs ss s = Inr s' \<Longrightarrow> length (remaining_steps s') \<le> length (remaining_steps s)"
proof (induction ss arbitrary: s)
  case Nil
  then show ?case by simp
next
  case (Cons step rest)
  then show ?case
    by (auto split: sum.splits dest!: run_step_length) fastforce
qed

lemma run_ready_shrinks:
  "run_ready exs ss s = Inr s' \<Longrightarrow> ss \<noteq> [] \<Longrightarrow>
   length (remaining_steps s') < length (remaining_steps s)"
  by (cases ss) (auto split: sum.splits dest!: run_step_length run_ready_length)

text \<open>
  The \<^verbatim>\<open>while\<close> loop of \<^verbatim>\<open>_execute_workflow\<close>. Every round that finds a ready step
  removes one from \<^verbatim>\<open>remaining_steps\<close>, so the loop ends.
\<close>

function run_loop :: "(ActionType \<rightharpoonup> executor) \<Rightarrow> run_state \<Rightarrow> run_state + run_state" where
  "run_loop exs s =
     (if remaining_steps s \<noteq> [] \<and> ex_status s = ACTIVE then
        (if ready_steps s = [] then Inr s
         else (case run_ready exs (ready_steps s) s of
                 Inl s' \<Rightarrow> Inl s'
               | Inr s' \<Rightarrow> run_loop exs s'))
      else Inr s)"
  by pat_completeness auto
termination
  by (relation "measure (\<lambda>(exs, s). length (remaining_steps s))")
     (auto dest: run_ready_shrinks)

text \<open>
  The dictionary comprehension \<^verbatim>\<open>{step.id: step for step in workflow.steps}\<close>: a later
  step of the same id replaces the earlier one in its place.
\<close>

definition remaining_of :: "WorkflowStep list \<Rightarrow> (string \<times> WorkflowStep) list" where
  "remaining_of ss = fold (\<lambda>step d. AList.update (step_id step) step d) ss []"

definition start_run :: "WorkflowExecution \<Rightarrow> WorkflowStep list \<Rightarrow> run_state" where
  "start_run execution ss =
     \<lparr>ex_id = ex_id execution, ex_workflow_id = ex_workflow_id execution,
      ex_status = ex_status execution, ex_context = ex_context execution,
      current_step = current_step execution,
      completed_steps = completed_steps execution, failed_steps = failed_steps execution,
      triggered_by = triggered_by execution,
      remaining_steps = remaining_of ss, step_status = Map.empty, step_result = Map.empty,
      step_error = Map.empty, events = []\<rparr>"

text \<open>
  \<^verbatim>\<open>_execute_workflow\<close>: an unknown workflow fails the execution at once; otherwise the
  loop runs and the final status is read from \<^verbatim>\<open>failed_steps\<close> and \<^verbatim>\<open>remaining_steps\<close>.
  An exception that leaves the loop is caught by the outer \<^verbatim>\<open>except\<close>, which fails the
  execution. The engine's \<^verbatim>\<open>running_executions\<close> set, to which the id is added on entry
  and from which it is discarded on exit, and the timestamp \<^verbatim>\<open>completed_at\<close> are left out.
\<close>

definition execute_workflow :: "WorkflowEngine \<Rightarrow> WorkflowExecution \<Rightarrow> run_state" where
  "execute_workflow engine execution =
     (case workflows engine (ex_workflow_id execution) of
        None \<Rightarrow> (start_run execution [])\<lparr>ex_status := FAILED\<rparr>
      | Some workflow \<Rightarrow>
          (case run_loop (executors engine) (start_run execution (steps workflow)) of
             Inl s \<Rightarrow> s\<lparr>ex_status := FAILED\<rparr>
           | Inr s \<Rightarrow>
               s\<lparr>ex_status :=
                    (if failed_steps s \<noteq> {} then FAILED
                     else if remaining_steps s = [] then COMPLETED
                     else PAUSED)\<rparr>))"

text \<open>
  \<^verbatim>\<open>trigger_workflow\<close>: a fresh active execution with empty step sets, whose run the
  source starts as a background task; here the run follows at once. \<open>uuid\<close> is the
  \<^verbatim>\<open>uuid4\<close> drawn for the execution id.
\<close>

definition new_execution ::
  "WorkflowDefinition \<Rightarrow> string \<Rightarrow> string \<Rightarrow> (string \<rightharpoonup> pyval) \<Rightarrow> string \<Rightarrow> WorkflowExecution" where
  "new_execution workflow uuid workflow_id context_data origin =
     \<lparr>ex_id = uuid, ex_workflow_id = workflow_id, ex_status = ACTIVE,
      ex_context = \<lparr>wc_workflow_id = workflow_id, execution_id = uuid,
                    data = context_data, variables = wf_variables workflow\<rparr>,
      current_step = None, completed_steps = {}, failed_steps = {},
      triggered_by = origin\<rparr>"

definition trigger_workflow ::
  "WorkflowEngine \<Rightarrow> string \<Rightarrow> string \<Rightarrow> (string \<rightharpoonup> pyval) \<Rightarrow> string \<Rightarrow> py_error + run_state" where
  "trigger_workflow engine uuid workflow_id context_data origin =
     (case workflows engine workflow_id of
        None \<Rightarrow> Inl ValueError
      | Some workflow \<Rightarrow>
          Inr (execute_workflow engine
                 (new_execution workflow uuid workflow_id context_data origin)))"

section \<open>Workflow engine: the invariant of a run\<close>

text \<open>
  The definitions of this section serve the proofs only. A history lists the steps run
  so far in order, each with whether it completed (\<open>True\<close>) or failed (\<open>False\<close>); a step
  contributes the two log entries of its \<open>block\<close>. A dictionary is well keyed when its
  keys are distinct and every step sits under its own id. The invariant ties the log,
  the two step sets and \<^verbatim>\<open>remaining_steps\<close> to the history.
\<close>

definition block :: "string \<times> bool \<Rightarrow> event list" where
  "block h = [Started (fst h), if snd h then Completed (fst h) else Failed (fst h)]"

definition well_keyed :: "(string \<times> WorkflowStep) list \<Rightarrow> bool" where
  "well_keyed d \<longleftrightarrow> distinct (map fst d) \<and> (\<forall>(k, st) \<in> set d. step_id st = k)"

definition deps_ok :: "(string \<times> WorkflowStep) list \<Rightarrow> (string \<times> bool) list \<Rightarrow> bool" where
  "deps_ok d0 hist \<longleftrightarrow>
     (\<forall>j < length hist. \<forall>st. (fst (hist ! j), st) \<in> set d0 \<longrightarrow>
        set (dependencies st) \<subseteq> {a. (a, True) \<in> set (take j hist)})"

definition run_inv ::
  "(string \<times> WorkflowStep) list \<Rightarrow> (string \<times> bool) list \<Rightarrow> run_state \<Rightarrow> bool" where
  "run_inv d0 hist s \<longleftrightarrow>
     events s = concat (map block hist) \<and>
     distinct (map fst hist) \<and>
     completed_steps s = {x. (x, True) \<in> set hist} \<and>
     failed_steps s = {x. (x, False) \<in> set hist} \<and>
     remaining_steps s = filter (\<lambda>(k, _). k \<notin> fst ` set hist) d0 \<and>
     fst ` set hist \<subseteq> fst ` set d0 \<and>
     deps_ok d0 hist"

text \<open>
  Whether the \<^verbatim>\<open>await\<close> of \<^verbatim>\<open>_execute_step\<close> returns a result for a step in a context:
  it does not when no executor is registered for the step's action type, when the
  executor raises, or when \<^verbatim>\<open>asyncio.wait_for\<close> runs into the timeout. \<open>step_timeout\<close>
  is the timeout the call is made with, as in \<open>execute_step\<close>. A history has the right
  outcomes when every entry records what the \<^verbatim>\<open>await\<close> of its step did in some context.
\<close>

definition step_timeout :: "WorkflowStep \<Rightarrow> int option" where
  "step_timeout st =
     (case timeout_seconds st of None \<Rightarrow> None | Some t \<Rightarrow> if t \<noteq> 0 then Some t else None)"

definition step_returns :: "(ActionType \<rightharpoonup> executor) \<Rightarrow> WorkflowStep \<Rightarrow> WorkflowContext \<Rightarrow> bool" where
  "step_returns exs st ctx =
     (case exs (action_type st) of
        None \<Rightarrow> False
      | Some ex \<Rightarrow> (case ex st ctx (step_timeout st) of Returned _ \<Rightarrow> True | _ \<Rightarrow> False))"

definition outcomes_ok ::
  "(ActionType \<rightharpoonup> executor) \<Rightarrow> (string \<times> WorkflowStep) list \<Rightarrow> (string \<times> bool) list \<Rightarrow> bool" where
  "outcomes_ok exs d0 hist \<longleftrightarrow>
     (\<forall>(x, ok) \<in> set hist. \<forall>st. (x, st) \<in> set d0 \<longrightarrow> (\<exists>ctx. ok = step_returns exs st ctx))"

section \<open>Sample inputs\<close>

text \<open>A rule without conditions: it matches every context.\<close>

definition sample_rule :: "string \<Rightarrow> PolicyAction \<Rightarrow> int \<Rightarrow> PolicyRule" where
  "sample_rule rid act prio =
     \<lparr>rule_id = rid, name = rid, description = [], policy_type = DATA_ACCESS,
      conditions = [], action = act, priority = prio, enabled = True\<rparr>"

text \<open>A stored data-access policy with one rule of priority 200.\<close>

definition stored_strict :: "PolicyStorage list" where
  "stored_strict =
     [\<lparr>policy_id = ''p1'', ps_policy_type = DATA_ACCESS,
       rules = [sample_rule ''strict'' DENY 200], is_active = True\<rparr>]"

text \<open>The third default rule, and a context without the key \<^verbatim>\<open>email_domain\<close>.\<close>

definition external_email_restriction :: PolicyRule where
  "external_email_restriction = default_policies ! 2"

definition off_hours_context :: py_context where
  "off_hours_context = [''business_hours'' \<mapsto> SBool False]"

text \<open>
  A system built on tables in which \<^verbatim>\<open>alice\<close> is a sales manager, \<^verbatim>\<open>bob\<close> an
  administrator and \<^verbatim>\<open>u1\<close> a viewer, with no stored policies, and three moments.
\<close>

definition sample_tables :: RBACManager where
  "sample_tables =
     \<lparr>roles = [],
      user_roles = [(''alice'', ''sales_manager''), (''bob'', ''admin''), (''u1'', ''viewer'')],
      role_permissions = [], permission_cache = Map.empty, cache_timestamps = Map.empty\<rparr>"

definition sample_system :: GovernanceSystem where
  "sample_system = GovernanceSystem_init sample_tables [] []"

definition moment :: "int \<Rightarrow> string \<Rightarrow> ambient" where
  "moment t tag =
     \<lparr>clock = t, isoformat = ''2024-01-01T00:00:00'', audit_uuid = ''audit-'' @ tag,
      approval_uuid = ''approval-'' @ tag\<rparr>"

text \<open>
  \<^verbatim>\<open>alice\<close> reads a lead, which the default rule sends to the approval queue; then
  \<^verbatim>\<open>alice\<close> approves the request; then \<^verbatim>\<open>bob\<close> denies the same request.
\<close>

definition queued_system :: GovernanceSystem where
  "queued_system =
     fst (authorize_action (\<lambda>p t. None) (moment 0 ''0'') sample_system
            ''alice'' ''read'' (Some ''lead'') (Some ''L1'') None)"

definition approved_system :: GovernanceSystem where
  "approved_system =
     fst (approve_action (moment 10 ''1'') queued_system ''approval-0'' ''alice'' True None)"

text \<open>
  A workflow of four human-task steps: \<^verbatim>\<open>A\<close> and \<^verbatim>\<open>B\<close> depend on nothing, \<^verbatim>\<open>C\<close> depends
  on \<^verbatim>\<open>B\<close> and \<^verbatim>\<open>D\<close> on \<^verbatim>\<open>A\<close>. The executor runs into the timeout on step \<^verbatim>\<open>A\<close> and
  succeeds on every other step.
\<close>

definition sample_step :: "string \<Rightarrow> string list \<Rightarrow> WorkflowStep" where
  "sample_step sid deps =
     \<lparr>step_id = sid, step_name = sid, action_type = HUMAN_TASK, config = [],
      dependencies = deps, step_conditions = [], timeout_seconds = Some 1,
      retry_count = 0, max_retries = 3\<rparr>"

definition sample_workflow :: WorkflowDefinition where
  "sample_workflow =
     \<lparr>wf_id = ''wf'', wf_name = ''wf'',
      steps = [sample_step ''A'' [], sample_step ''B'' [], sample_step ''C'' [''B''],
               sample_step ''D'' [''A'']],
      wf_variables = Map.empty\<rparr>"

definition slow_on :: "string \<Rightarrow> executor" where
  "slow_on sid step ctx timeout =
     (if step_id step = sid \<and> timeout \<noteq> None then TimedOut
      else Returned \<lparr>sr_success = True, sr_data = None, sr_other = []\<rparr>)"

definition sample_engine :: WorkflowEngine where
  "sample_engine =
     \<lparr>workflows = [''wf'' \<mapsto> sample_workflow], executors = [HUMAN_TASK \<mapsto> slow_on ''A'']\<rparr>"

definition sample_run :: run_state where
  "sample_run =
     execute_workflow sample_engine
       (new_execution sample_workflow ''x1'' ''wf'' Map.empty ''manual'')"

section \<open>Workflow engine: the invariant holds\<close>

lemma well_keyed_update:
  "well_keyed d \<Longrightarrow> well_keyed (AList.update (step_id st) st d)"
proof -
  assume w: "well_keyed d"
  have "set (AList.update (step_id st) st d) \<subseteq> insert (step_id st, st) (set d)"
    by (induction d) auto
  with w show ?thesis
    unfolding well_keyed_def by (auto simp: distinct_update)
qed

lemma well_keyed_fold:
  "well_keyed d \<Longrightarrow> well_keyed (fold (\<lambda>step d. AList.update (step_id step) step d) ss d)"
  by (induction ss arbitrary: d) (auto simp: well_keyed_update)

lemma well_keyed_remaining_of: "well_keyed (remaining_of ss)"
  unfolding remaining_of_def by (rule well_keyed_fold) (simp add: well_keyed_def)

lemma deps_ok_snoc:
  assumes "deps_ok d0 hist"
      and "\<And>st. (x, st) \<in> set d0 \<Longrightarrow> set (dependencies st) \<subseteq> {a. (a, True) \<in> set hist}"
  shows "deps_ok d0 (hist @ [(x, ok)])"
  unfolding deps_ok_def
proof (intro allI impI)
  fix j st
  assume j: "j < length (hist @ [(x, ok)])"
     and m: "(fst ((hist @ [(x, ok)]) ! j), st) \<in> set d0"
  show "set (dependencies st) \<subseteq> {a. (a, True) \<in> set (take j (hist @ [(x, ok)]))}"
  proof (cases "j < length hist")
    case True
    with m have "(fst (hist ! j), st) \<in> set d0" by (simp add: nth_append)
    with assms(1) True have "set (dependencies st) \<subseteq> {a. (a, True) \<in> set (take j hist)}"
      by (simp add: deps_ok_def)
    with True show ?thesis by simp
  next
    case False
    with j have e: "j = length hist" by simp
    with m have "(x, st) \<in> set d0" by simp
    from assms(2)[OF this] e show ?thesis by simp
  qed
qed

lemma run_invD:
  assumes "run_inv d0 hist s"
  shows "events s = concat (map block hist)"
    and "distinct (map fst hist)"
    and "completed_steps s = {x. (x, True) \<in> set hist}"
    and "failed_steps s = {x. (x, False) \<in> set hist}"
    and "remaining_steps s = filter (\<lambda>(k, _). k \<notin> fst ` set hist) d0"
    and "fst ` set hist \<subseteq> fst ` set d0"
    and "deps_ok d0 hist"
  using assms unfolding run_inv_def by blast+

lemma run_invI:
  assumes "events s = concat (map block hist)"
    and "distinct (map fst hist)"
    and "completed_steps s = {x. (x, True) \<in> set hist}"
    and "failed_steps s = {x. (x, False) \<in> set hist}"
    and "remaining_steps s = filter (\<lambda>(k, _). k \<notin> fst ` set hist) d0"
    and "fst ` set hist \<subseteq> fst ` set d0"
    and "deps_ok d0 hist"
  shows "run_inv d0 hist s"
  using assms unfolding run_inv_def by blast

lemma execute_step_frame:
  assumes "execute_step exs st s = (s1, r)"
  shows "remaining_steps s1 = remaining_steps s \<and> completed_steps s1 = completed_steps s
       \<and> failed_steps s1 = failed_steps s \<and> events s1 = events s @ [Started (step_id st)]
       \<and> ex_status s1 = ex_status s"
  using assms
  by (auto simp: execute_step_def Let_def split: option.splits exec_outcome.splits)

lemma well_keyed_unique:
  "well_keyed d \<Longrightarrow> (k, a) \<in> set d \<Longrightarrow> (k, b) \<in> set d \<Longrightarrow> a = b"
  unfolding well_keyed_def by (metis eq_key_imp_eq_value)

lemma filter_delete:
  "AList.delete x (filter (\<lambda>(k, _). k \<notin> A) d) = filter (\<lambda>(k, _). k \<notin> insert x A) d"
  by (induction d) (auto simp: AList.delete_eq)

lemma run_inv_extend:
  assumes wk: "well_keyed d0"
      and inv: "run_inv d0 hist s"
      and mem: "(step_id st, st) \<in> set (remaining_steps s)"
      and deps: "set (dependencies st) \<subseteq> completed_steps s"
      and ev: "events s' = events s @ block (step_id st, ok)"
      and co: "completed_steps s' = (if ok then insert (step_id st) (completed_steps s)
                                    else completed_steps s)"
      and fa: "failed_steps s' = (if ok then failed_steps s
                                 else insert (step_id st) (failed_steps s))"
      and re: "remaining_steps s' = AList.delete (step_id st) (remaining_steps s)"
  shows "run_inv d0 (hist @ [(step_id st, ok)]) s'"
proof -
  note p = run_invD[OF inv]
  from mem p(5) have in0: "(step_id st, st) \<in> set d0"
    and fresh: "step_id st \<notin> fst ` set hist" by auto
  have d: "deps_ok d0 (hist @ [(step_id st, ok)])"
  proof (rule deps_ok_snoc)
    show "deps_ok d0 hist" by (rule p(7))
  next
    fix st' assume "(step_id st, st') \<in> set d0"
    with wk in0 have "st' = st" by (metis well_keyed_unique)
    with deps p(3) show "set (dependencies st') \<subseteq> {a. (a, True) \<in> set hist}"
      by simp
  qed
  have r: "remaining_steps s' =
             filter (\<lambda>(k, _). k \<notin> fst ` set (hist @ [(step_id st, ok)])) d0"
    using re p(5) by (simp add: filter_delete)
  have c: "completed_steps s' = {x. (x, True) \<in> set (hist @ [(step_id st, ok)])}"
    using co p(3) by auto
  have f: "failed_steps s' = {x. (x, False) \<in> set (hist @ [(step_id st, ok)])}"
    using fa p(4) by auto
  have e: "events s' = concat (map block (hist @ [(step_id st, ok)]))"
    using ev p(1) by simp
  have di: "distinct (map fst (hist @ [(step_id st, ok)]))"
    using fresh p(2) by simp
  have "step_id st \<in> fst ` set d0" using in0 by (metis fst_conv imageI)
  with p(6) have su: "fst ` set (hist @ [(step_id st, ok)]) \<subseteq> fst ` set d0"
    by simp
  from e di c f r su d show ?thesis by (rule run_invI)
qed


lemma pop_present: "(k, v) \<in> set d \<Longrightarrow> pop k d = Some (AList.delete k d)"
  by (force simp: pop_def)

lemma execute_step_outcome:
  "snd (execute_step exs st s) = None \<longleftrightarrow> step_returns exs st (ex_context s)"
  by (simp add: execute_step_def step_returns_def step_timeout_def Let_def
           split: option.splits exec_outcome.splits)


lemma run_step_effect:
  assumes mem: "(step_id st, st) \<in> set (remaining_steps s)"
  shows "\<exists>s'. run_step exs st s = Inr s'
     \<and> events s' = events s @ block (step_id st, step_returns exs st (ex_context s))
     \<and> completed_steps s' = (if step_returns exs st (ex_context s)
                               then insert (step_id st) (completed_steps s)
                               else completed_steps s)
     \<and> failed_steps s' = (if step_returns exs st (ex_context s) then failed_steps s
                            else insert (step_id st) (failed_steps s))
     \<and> remaining_steps s' = AList.delete (step_id st) (remaining_steps s)
     \<and> ex_status s' = ex_status s"
proof (cases "execute_step exs st s")
  case (Pair s1 r)
  note fr = execute_step_frame[OF Pair]
  from fr mem have mem1: "(step_id st, st) \<in> set (remaining_steps s1)" by simp
  from Pair execute_step_outcome[of exs st s]
  have out: "step_returns exs st (ex_context s) \<longleftrightarrow> r = None" by simp
  show ?thesis
  proof (cases r)
    case None
    define s' where "s' = s1\<lparr>completed_steps := insert (step_id st) (completed_steps s1),
                              events := events s1 @ [Completed (step_id st)],
                              remaining_steps := AList.delete (step_id st) (remaining_steps s1)\<rparr>"
    have run: "run_step exs st s = Inr s'"
      using Pair None pop_present[OF mem1] by (simp add: run_step_def Let_def s'_def)
    from None out have "step_returns exs st (ex_context s)" by simp
    then show ?thesis using run by (simp add: s'_def fr block_def)
  next
    case (Some e)
    define s' where "s' = s1\<lparr>step_error := (step_error s1)(step_id st \<mapsto> e),
                              step_status := (step_status s1)(step_id st \<mapsto> STEP_FAILED),
                              failed_steps := insert (step_id st) (failed_steps s1),
                              events := events s1 @ [Failed (step_id st)],
                              remaining_steps := AList.delete (step_id st) (remaining_steps s1)\<rparr>"
    have run: "run_step exs st s = Inr s'"
      using Pair Some pop_present[OF mem1]
      by (simp add: run_step_def step_failed_def Let_def s'_def)
    from Some out have "\<not> step_returns exs st (ex_context s)" by simp
    then show ?thesis using run by (simp add: s'_def fr block_def)
  qed
qed

lemma run_step_inv:
  assumes wk: "well_keyed d0"
      and inv: "run_inv d0 hist s"
      and mem: "(step_id st, st) \<in> set (remaining_steps s)"
      and deps: "set (dependencies st) \<subseteq> completed_steps s"
  shows "\<exists>s'. run_step exs st s = Inr s'
           \<and> run_inv d0 (hist @ [(step_id st, step_returns exs st (ex_context s))]) s'
           \<and> ex_status s' = ex_status s"
proof -
  from run_step_effect[OF mem, of exs] obtain s' where
    run: "run_step exs st s = Inr s'"
    and ev: "events s' = events s @ block (step_id st, step_returns exs st (ex_context s))"
    and co: "completed_steps s' = (if step_returns exs st (ex_context s)
                                    then insert (step_id st) (completed_steps s)
                                    else completed_steps s)"
    and fa: "failed_steps s' = (if step_returns exs st (ex_context s) then failed_steps s
                                 else insert (step_id st) (failed_steps s))"
    and re: "remaining_steps s' = AList.delete (step_id st) (remaining_steps s)"
    and st: "ex_status s' = ex_status s" by blast
  from run_inv_extend[OF wk inv mem deps ev co fa re] run st show ?thesis by blast
qed

lemma outcomes_ok_append:
  "outcomes_ok exs d0 (h1 @ h2) \<longleftrightarrow> outcomes_ok exs d0 h1 \<and> outcomes_ok exs d0 h2"
  by (simp add: outcomes_ok_def ball_Un)

lemma outcomes_ok_single:
  assumes "well_keyed d0" and "(step_id st, st) \<in> set d0"
  shows "outcomes_ok exs d0 [(step_id st, step_returns exs st ctx)]"
  unfolding outcomes_ok_def
proof (intro ballI, clarify)
  fix x ok st'
  assume a: "(x, ok) \<in> set [(step_id st, step_returns exs st ctx)]" and b: "(x, st') \<in> set d0"
  from a have x: "x = step_id st" and ok: "ok = step_returns exs st ctx" by simp_all
  from assms b x have "st' = st" by (metis well_keyed_unique)
  with ok show "\<exists>ctx. ok = step_returns exs st' ctx" by blast
qed

lemma run_inv_completed_mono:
  "run_inv d0 hist s \<Longrightarrow> run_inv d0 (hist @ h) s' \<Longrightarrow> completed_steps s \<subseteq> completed_steps s'"
  by (auto simp: run_invD(3))

lemma run_inv_remaining_later:
  assumes "run_inv d0 hist s" and "run_inv d0 (hist @ [(x, ok)]) s'"
      and "(k, v) \<in> set (remaining_steps s)" and "k \<noteq> x"
  shows "(k, v) \<in> set (remaining_steps s')"
  using assms(3,4) by (auto simp: run_invD(5)[OF assms(1)] run_invD(5)[OF assms(2)])

lemma run_ready_inv:
  assumes wk: "well_keyed d0"
  shows "run_inv d0 hist s \<Longrightarrow> distinct (map step_id rs) \<Longrightarrow>
         \<forall>st \<in> set rs. (step_id st, st) \<in> set (remaining_steps s)
                        \<and> set (dependencies st) \<subseteq> completed_steps s \<Longrightarrow>
         \<exists>hist' s'. run_ready exs rs s = Inr s' \<and> run_inv d0 (hist @ hist') s'
                     \<and> ex_status s' = ex_status s \<and> outcomes_ok exs d0 hist'"
proof (induction rs arbitrary: hist s)
  case Nil
  then have "run_ready exs [] s = Inr s \<and> run_inv d0 (hist @ []) s \<and> ex_status s = ex_status s
             \<and> outcomes_ok exs d0 []"
    by (simp add: outcomes_ok_def)
  then show ?case by blast
next
  case (Cons st rest)
  from Cons.prems have mem: "(step_id st, st) \<in> set (remaining_steps s)"
    and deps: "set (dependencies st) \<subseteq> completed_steps s" by simp_all
  let ?ok = "step_returns exs st (ex_context s)"
  from run_step_inv[OF wk Cons.prems(1) mem deps, of exs]
  obtain s1 where step: "run_step exs st s = Inr s1"
    and inv1: "run_inv d0 (hist @ [(step_id st, ?ok)]) s1"
    and st1: "ex_status s1 = ex_status s" by blast
  from mem run_invD(5)[OF Cons.prems(1)] have in0: "(step_id st, st) \<in> set d0" by auto
  have o1: "outcomes_ok exs d0 [(step_id st, ?ok)]"
    by (rule outcomes_ok_single[OF wk in0])
  have d: "distinct (map step_id rest)" using Cons.prems(2) by simp
  have later: "\<forall>st' \<in> set rest. (step_id st', st') \<in> set (remaining_steps s1)
                 \<and> set (dependencies st') \<subseteq> completed_steps s1"
  proof
    fix st' assume m: "st' \<in> set rest"
    have "step_id st \<notin> step_id ` set rest" using Cons.prems(2) by simp
    with m have ne: "step_id st' \<noteq> step_id st" by (metis imageI)
    from m Cons.prems(3) have a: "(step_id st', st') \<in> set (remaining_steps s)"
      and b: "set (dependencies st') \<subseteq> completed_steps s" by simp_all
    from run_inv_remaining_later[OF Cons.prems(1) inv1 a ne]
      run_inv_completed_mono[OF Cons.prems(1) inv1] b
    show "(step_id st', st') \<in> set (remaining_steps s1)
            \<and> set (dependencies st') \<subseteq> completed_steps s1" by blast
  qed
  from Cons.IH[OF inv1 d later]
  obtain hist' s' where r: "run_ready exs rest s1 = Inr s'"
    and i: "run_inv d0 ((hist @ [(step_id st, ?ok)]) @ hist') s'"
    and e: "ex_status s' = ex_status s1"
    and o2: "outcomes_ok exs d0 hist'" by blast
  from step r have "run_ready exs (st # rest) s = Inr s'" by simp
  moreover from i have "run_inv d0 (hist @ ((step_id st, ?ok) # hist')) s'" by simp
  moreover from e st1 have "ex_status s' = ex_status s" by simp
  moreover from o1 o2 have "outcomes_ok exs d0 ((step_id st, ?ok) # hist')"
    using outcomes_ok_append[of exs d0 "[(step_id st, ?ok)]" hist'] by simp
  ultimately show ?case by blast
qed

lemma well_keyed_filter: "well_keyed d \<Longrightarrow> well_keyed (filter P d)"
  by (auto simp: well_keyed_def distinct_map_filter)

lemma well_keyed_ids: "well_keyed d \<Longrightarrow> map step_id (map snd d) = map fst d"
  by (induction d) (auto simp: well_keyed_def)

lemma ready_steps_facts:
  assumes wk: "well_keyed (remaining_steps s)"
  shows "distinct (map step_id (ready_steps s))"
    and "\<forall>st \<in> set (ready_steps s). (step_id st, st) \<in> set (remaining_steps s)
                                      \<and> set (dependencies st) \<subseteq> completed_steps s"
proof -
  have "distinct (map fst (remaining_steps s))" using wk by (simp add: well_keyed_def)
  then have "distinct (map step_id (map snd (remaining_steps s)))"
    by (simp only: well_keyed_ids[OF wk])
  then show "distinct (map step_id (ready_steps s))"
    unfolding ready_steps_def by (rule distinct_map_filter)
  show "\<forall>st \<in> set (ready_steps s). (step_id st, st) \<in> set (remaining_steps s)
                                      \<and> set (dependencies st) \<subseteq> completed_steps s"
    using wk by (force simp: ready_steps_def well_keyed_def list_all_iff)
qed

lemma run_inv_well_keyed:
  "well_keyed d0 \<Longrightarrow> run_inv d0 hist s \<Longrightarrow> well_keyed (remaining_steps s)"
  by (simp add: run_invD(5) well_keyed_filter)

lemma run_loop_inv:
  assumes wk: "well_keyed d0"
  shows "run_inv d0 hist s \<Longrightarrow>
         \<exists>hist' s'. run_loop exs s = Inr s' \<and> run_inv d0 (hist @ hist') s'
                     \<and> ex_status s' = ex_status s \<and> outcomes_ok exs d0 hist'
                     \<and> (remaining_steps s' = [] \<or> ex_status s' \<noteq> ACTIVE
                          \<or> ready_steps s' = [])"
proof (induction exs s arbitrary: hist rule: run_loop.induct)
  case (1 exs s)
  show ?case
  proof (cases "remaining_steps s \<noteq> [] \<and> ex_status s = ACTIVE \<and> ready_steps s \<noteq> []")
    case False
    then have "run_loop exs s = Inr s" by auto
    with "1.prems" False
    have "run_loop exs s = Inr s \<and> run_inv d0 (hist @ []) s
          \<and> ex_status s = ex_status s \<and> outcomes_ok exs d0 []
          \<and> (remaining_steps s = [] \<or> ex_status s \<noteq> ACTIVE \<or> ready_steps s = [])"
      by (simp add: outcomes_ok_def)
    then show ?thesis by blast
  next
    case True
    note wr = run_inv_well_keyed[OF wk "1.prems"]
    from run_ready_inv[OF wk "1.prems" ready_steps_facts[OF wr], of exs]
    obtain h1 s1 where r: "run_ready exs (ready_steps s) s = Inr s1"
      and i: "run_inv d0 (hist @ h1) s1" and e: "ex_status s1 = ex_status s"
      and o1: "outcomes_ok exs d0 h1" by blast
    from True have a: "remaining_steps s \<noteq> [] \<and> ex_status s = ACTIVE"
      and b: "ready_steps s \<noteq> []" by simp_all
    from "1.IH"[OF a b r i]
    obtain h2 s2 where r2: "run_loop exs s1 = Inr s2"
      and i2: "run_inv d0 ((hist @ h1) @ h2) s2" and e2: "ex_status s2 = ex_status s1"
      and o2: "outcomes_ok exs d0 h2"
      and x2: "remaining_steps s2 = [] \<or> ex_status s2 \<noteq> ACTIVE \<or> ready_steps s2 = []"
      by blast
    from a b r r2 have "run_loop exs s = Inr s2" by simp
    moreover from i2 have "run_inv d0 (hist @ (h1 @ h2)) s2" by simp
    moreover from e e2 have "ex_status s2 = ex_status s" by simp
    moreover from o1 o2 have "outcomes_ok exs d0 (h1 @ h2)" by (simp add: outcomes_ok_append)
    ultimately show ?thesis using x2 by blast
  qed
qed

lemma run_inv_start:
  assumes "completed_steps execution = {}" and "failed_steps execution = {}"
  shows "run_inv (remaining_of ss) [] (start_run execution ss)"
  by (rule run_invI) (simp_all add: assms start_run_def deps_ok_def)

lemma check_step_conditions_status:
  "check_step_conditions st (s\<lparr>ex_status := x\<rparr>) = check_step_conditions st s"
  by (auto simp: check_step_conditions_def list_all_iff split: option.splits)

lemma ready_steps_status: "ready_steps (s\<lparr>ex_status := x\<rparr>) = ready_steps s"
  by (simp add: ready_steps_def check_step_conditions_status)

lemma trigger_workflow_outcomes:
  assumes "trigger_workflow engine uuid wid cd origin = Inr r"
  shows "\<exists>wf hist. workflows engine wid = Some wf
           \<and> run_inv (remaining_of (steps wf)) hist r
           \<and> ex_status r = (if failed_steps r \<noteq> {} then FAILED
                             else if remaining_steps r = [] then COMPLETED else PAUSED)
           \<and> outcomes_ok (executors engine) (remaining_of (steps wf)) hist
           \<and> ready_steps r = []"
proof -
  from assms obtain wf where wf: "workflows engine wid = Some wf"
    and r: "r = execute_workflow engine (new_execution wf uuid wid cd origin)"
    by (auto simp: trigger_workflow_def split: option.splits)
  let ?d0 = "remaining_of (steps wf)"
  let ?s0 = "start_run (new_execution wf uuid wid cd origin) (steps wf)"
  have "run_inv ?d0 [] ?s0"
    by (rule run_inv_start) (simp_all add: new_execution_def)
  from run_loop_inv[OF well_keyed_remaining_of this, of "executors engine"]
  obtain hist s where l: "run_loop (executors engine) ?s0 = Inr s"
    and i: "run_inv ?d0 hist s"
    and e: "ex_status s = ex_status ?s0"
    and o: "outcomes_ok (executors engine) ?d0 hist"
    and x: "remaining_steps s = [] \<or> ex_status s \<noteq> ACTIVE \<or> ready_steps s = []"
    by auto
  have "ex_status ?s0 = ACTIVE" by (simp add: start_run_def new_execution_def)
  with e x have "remaining_steps s = [] \<or> ready_steps s = []" by simp
  then have rd: "ready_steps s = []" by (auto simp: ready_steps_def)
  let ?st = "if failed_steps s \<noteq> {} then FAILED
             else if remaining_steps s = [] then COMPLETED else PAUSED"
  from r wf l have r': "r = s\<lparr>ex_status := ?st\<rparr>"
    by (simp add: execute_workflow_def new_execution_def)
  have "run_inv ?d0 hist (s\<lparr>ex_status := ?st\<rparr>)"
    by (rule run_invI) (simp_all add: run_invD[OF i])
  moreover have "ready_steps (s\<lparr>ex_status := ?st\<rparr>) = []"
    using rd by (simp only: ready_steps_status)
  ultimately show ?thesis using r' wf o
    by (intro exI[of _ wf] exI[of _ hist]) simp
qed

lemma trigger_workflow_inv:
  assumes "trigger_workflow engine uuid wid cd origin = Inr r"
  shows "\<exists>wf hist. workflows engine wid = Some wf
           \<and> run_inv (remaining_of (steps wf)) hist r
           \<and> ex_status r = (if failed_steps r \<noteq> {} then FAILED
                             else if remaining_steps r = [] then COMPLETED else PAUSED)"
  using trigger_workflow_outcomes[OF assms] by blast

lemma block_pair: "block (x, ok) = [Started x, if ok then Completed x else Failed x]"
  by (simp add: block_def)

lemma Completed_in_blocks:
  "Completed x \<in> set (concat (map block hist)) \<longleftrightarrow> (x, True) \<in> set hist"
  by (induction hist) (auto simp: block_pair split: if_splits)

lemma Failed_in_blocks:
  "Failed x \<in> set (concat (map block hist)) \<longleftrightarrow> (x, False) \<in> set hist"
  by (induction hist) (auto simp: block_pair split: if_splits)

lemma Started_in_blocks:
  "Started x \<in> set (concat (map block hist)) \<longleftrightarrow> x \<in> fst ` set hist"
  by (induction hist) (auto simp: block_pair split: if_splits)

lemma distinct_blocks:
  "distinct (map fst hist) \<Longrightarrow> distinct (concat (map block hist))"
proof (induction hist)
  case Nil
  then show ?case by simp
next
  case (Cons h hist)
  obtain x ok where h: "h = (x, ok)" by (cases h)
  with Cons.prems have fresh: "x \<notin> fst ` set hist" by simp
  then have a: "Started x \<notin> set (concat (map block hist))"
    by (simp only: Started_in_blocks not_False_eq_True)
  from fresh have "(x, True) \<notin> set hist" and "(x, False) \<notin> set hist"
    by (metis fst_conv imageI)+
  then have b: "Completed x \<notin> set (concat (map block hist))"
    and c: "Failed x \<notin> set (concat (map block hist))"
    by (simp_all only: Completed_in_blocks Failed_in_blocks not_False_eq_True)
  from Cons have d: "distinct (concat (map block hist))" by simp
  show ?case
  proof (cases ok)
    case True
    with h a b d show ?thesis by (simp add: block_pair)
  next
    case False
    with h a c d show ?thesis by (simp add: block_pair)
  qed
qed

lemma blocks_split:
  "concat (map block hist) = pre @ Started b # post \<Longrightarrow>
   \<exists>h1 ok h2. hist = h1 @ (b, ok) # h2 \<and> pre = concat (map block h1)
      \<and> post = (if ok then Completed b else Failed b) # concat (map block h2)"
proof (induction hist arbitrary: pre)
  case Nil
  then show ?case by simp
next
  case (Cons h hist)
  obtain x ok where h: "h = (x, ok)" by (cases h)
  define e where "e = (if ok then Completed x else Failed x)"
  have bl: "block h = [Started x, e]" by (simp add: h e_def block_pair)
  have ene: "e \<noteq> Started b" by (simp add: e_def)
  from Cons.prems bl
  have eq: "Started x # e # concat (map block hist) = pre @ Started b # post" by simp
  show ?case
  proof (cases pre)
    case Nil
    with eq have "b = x" and "post = e # concat (map block hist)" by simp_all
    with h Nil have "h # hist = [] @ (b, ok) # hist \<and> pre = concat (map block [])
        \<and> post = (if ok then Completed b else Failed b) # concat (map block hist)"
      by (simp add: e_def)
    then show ?thesis by blast
  next
    case pre: (Cons p pre1)
    with eq have eq1: "e # concat (map block hist) = pre1 @ Started b # post"
      and p: "p = Started x" by simp_all
    show ?thesis
    proof (cases pre1)
      case Nil
      with eq1 ene show ?thesis by simp
    next
      case pre1: (Cons q pre2)
      with eq1 have q: "q = e" and eq2: "concat (map block hist) = pre2 @ Started b # post"
        by simp_all
      from Cons.IH[OF eq2] obtain h1 ok' h2 where
        a: "hist = h1 @ (b, ok') # h2" and b: "pre2 = concat (map block h1)"
        and c: "post = (if ok' then Completed b else Failed b) # concat (map block h2)" by blast
      have "pre = concat (map block (h # h1))"
        using pre pre1 p q b bl by simp
      moreover have "h # hist = (h # h1) @ (b, ok') # h2" using a by simp
      ultimately show ?thesis using c by blast
    qed
  qed
qed

lemma deps_ok_split:
  assumes "deps_ok d0 (h1 @ (x, ok) # h2)" and "(x, st) \<in> set d0"
  shows "set (dependencies st) \<subseteq> {a. (a, True) \<in> set h1}"
proof -
  have l: "length h1 < length (h1 @ (x, ok) # h2)" by simp
  from assms(1)[unfolded deps_ok_def, rule_format, OF l, of st] assms(2)
  show ?thesis by simp
qed

section \<open>Policy evaluation: the claims\<close>

lemma init_empty_security: "PolicyEngine_init [] SECURITY = None"
  by (simp add: PolicyEngine_init_def initialize_default_policies_def load_policies_def
      default_policies_def rule_exists_def all_policy_types_def rules_of_def)

text \<open>
  Claim C9. A policy type without registered rules (no entry in \<^verbatim>\<open>self.policies\<close>, or an
  empty list) evaluates to the action ALLOW with an empty list of violations, in every
  context.
\<close>

theorem evaluate_policies_no_rules:
  assumes "rules_of pols ptype = []"
  shows "\<exists>ev. evaluate_policies re pols ptype ctx = Inr ev \<and> ev_action ev = ALLOW
               \<and> ev_violations ev = []"
  using assms by (auto simp: evaluate_policies_def rules_of_def split: option.splits)

theorem evaluate_policies_no_rules_witness:
  "rules_of (PolicyEngine_init []) SECURITY = [] \<and>
   (\<exists>ev. evaluate_policies (\<lambda>p t. None) (PolicyEngine_init []) SECURITY Map.empty = Inr ev
      \<and> ev_action ev = ALLOW \<and> ev_violations ev = [])"
proof -
  have h: "rules_of (PolicyEngine_init []) SECURITY = []"
    by (simp add: rules_of_def init_empty_security)
  from h evaluate_policies_no_rules[OF h] show ?thesis by blast
qed

text \<open>
  Claim C1, at the input where the code departs from it. Two rules match, the first
  with action REDACT and the second with REQUIRE_APPROVAL, and no rule has DENY: the
  code returns REDACT, since the REQUIRE_APPROVAL branch only replaces ALLOW. With the
  two rules in the other order it returns REQUIRE_APPROVAL.
\<close>

theorem evaluate_policies_redact_before_approval:
  "map_sum id ev_action
     (evaluate_policies re
        [DATA_ACCESS \<mapsto> [sample_rule ''mask'' REDACT 10, sample_rule ''gate'' REQUIRE_APPROVAL 20]]
        DATA_ACCESS ctx) = Inr REDACT
   \<and> matches re (sample_rule ''mask'' REDACT 10) ctx = Inr True
   \<and> matches re (sample_rule ''gate'' REQUIRE_APPROVAL 20) ctx = Inr True
   \<and> map_sum id ev_action
     (evaluate_policies re
        [DATA_ACCESS \<mapsto> [sample_rule ''gate'' REQUIRE_APPROVAL 10, sample_rule ''mask'' REDACT 20]]
        DATA_ACCESS ctx) = Inr REQUIRE_APPROVAL"
  by (simp add: evaluate_policies_def matches_def sample_rule_def Let_def)

text \<open>
  What does hold of the order of evaluation: the lists that \<^verbatim>\<open>_load_policies\<close> builds
  are sorted by priority, and a matched DENY rule ends the evaluation, whatever rules
  follow it in the list.
\<close>

lemma load_policies_sorted:
  "sorted (map priority (rules_of (load_policies db) t))"
  by (simp add: load_policies_def rules_of_def Let_def split: option.splits)

lemma eval_rules_stops_at_deny:
  assumes "matches re rule ctx = Inr True" and "action rule = DENY"
  shows "eval_rules re (before @ rule # rest) ctx violations final_action
         = eval_rules re (before @ [rule]) ctx violations final_action"
  using assms
  by (induction before arbitrary: violations final_action)
     (auto simp: Let_def split: sum.splits bool.splits)

text \<open>
  Claim C2, at the input where the code departs from it. A stored data-access rule of
  priority 200 is loaded and sorted; the default rule of priority 100 is appended after
  it. The engine's list is then in the order 200, 100, and the evaluation meets the
  stored DENY rule first and stops: the default rule, of the lower priority number, is
  never evaluated.
\<close>

theorem defaults_appended_out_of_order:
  "map priority (rules_of (PolicyEngine_init stored_strict) DATA_ACCESS) = [200, 100]
   \<and> map rule_id (rules_of (PolicyEngine_init stored_strict) DATA_ACCESS)
       = [''strict'', ''data_access_own_leads'']
   \<and> map_sum id (\<lambda>ev. (ev_action ev, map v_rule_id (ev_violations ev)))
       (evaluate_policies re (PolicyEngine_init stored_strict) DATA_ACCESS
          [''resource_type'' \<mapsto> SStr ''lead'', ''action'' \<mapsto> SStr ''read''])
       = Inr (DENY, [''strict''])"
  by (simp add: PolicyEngine_init_def initialize_default_policies_def load_policies_def
      default_policies_def rule_exists_def all_policy_types_def rules_of_def stored_strict_def
      sample_rule_def evaluate_policies_def matches_def violation_of_def Let_def
      context_get_def check_condition_def)

section \<open>Rule matching: the claim\<close>

lemma check_conditions_True_iff:
  "check_conditions re cs ctx = Inr True \<longleftrightarrow>
   (\<forall>(k, c) \<in> set cs. check_condition re (context_get ctx k) c = Inr True)"
  by (induction cs) (auto split: sum.splits bool.splits)

lemma external_email_restriction_conditions:
  "rule_id external_email_restriction = ''external_email_restriction''
   \<and> enabled external_email_restriction
   \<and> conditions external_email_restriction =
       [(''email_domain'', Structured (Some (Atom (SStr ''not_in'')))
           (Some (PList [Atom (SStr ''company.com'')])) None),
        (''business_hours'', Literal (Atom (SBool False)))]"
  by (simp add: external_email_restriction_def default_policies_def)

text \<open>
  Claim C3 fails as stated. The default rule \<^verbatim>\<open>external_email_restriction\<close> has a
  \<^verbatim>\<open>not_in\<close> condition on the key \<^verbatim>\<open>email_domain\<close>, and it matches a context that has
  no such key: \<^verbatim>\<open>context.get\<close> reads \<^verbatim>\<open>None\<close>, which is not in the list.
\<close>

theorem matches_not_in_absent_key:
  "matches (\<lambda>p t. None) external_email_restriction off_hours_context = Inr True
   \<and> off_hours_context ''email_domain'' = None
   \<and> map fst (conditions external_email_restriction) = [''email_domain'', ''business_hours'']
   \<and> c_operator (snd (conditions external_email_restriction ! 0)) = Some (Atom (SStr ''not_in''))"
  by (simp add: matches_def external_email_restriction_conditions off_hours_context_def
      context_get_def check_condition_def)

text \<open>
  Claim C3, amended. A rule matches exactly when it is enabled and, for every condition
  key, the value \<^verbatim>\<open>context.get(key)\<close> passes the matcher, where a key the context lacks
  reads as \<^verbatim>\<open>None\<close>: presence of the key is not required. In particular a \<^verbatim>\<open>not_in\<close>
  condition over a list passes on a context without the key unless the list holds
  \<^verbatim>\<open>None\<close>.
\<close>

theorem matches_iff_conditions_pass:
  "(matches re rule ctx = Inr True \<longleftrightarrow>
      enabled rule \<and>
      (\<forall>(k, c) \<in> set (conditions rule). check_condition re (context_get ctx k) c = Inr True))
   \<and> (ctx k = None \<longrightarrow> context_get ctx k = SNone)
   \<and> (ctx k = None \<longrightarrow>
        check_condition re (context_get ctx k)
          (Structured (Some (Atom (SStr ''not_in''))) (Some (PList vs)) v)
        = Inr (\<not> list_ex (py_eq SNone) vs))"
  by (simp add: matches_def check_conditions_True_iff context_get_def check_condition_def)

theorem matches_iff_conditions_pass_witness:
  "enabled external_email_restriction
   \<and> list_all (\<lambda>(k, c). check_condition (\<lambda>p t. None) (context_get off_hours_context k) c = Inr True)
       (conditions external_email_restriction)
   \<and> off_hours_context ''email_domain'' = None
   \<and> matches (\<lambda>p t. None) external_email_restriction off_hours_context = Inr True
   \<and> context_get off_hours_context ''email_domain'' = SNone
   \<and> check_condition (\<lambda>p t. None) (context_get off_hours_context ''email_domain'')
        (Structured (Some (Atom (SStr ''not_in''))) (Some (PList [Atom (SStr ''company.com'')])) None)
      = Inr True"
proof -
  have e: "enabled external_email_restriction"
    by (simp add: external_email_restriction_conditions)
  have p: "\<forall>(k, c) \<in> set (conditions external_email_restriction).
             check_condition (\<lambda>p t. None) (context_get off_hours_context k) c = Inr True"
    by (simp add: external_email_restriction_conditions off_hours_context_def
        context_get_def check_condition_def)
  have a: "off_hours_context ''email_domain'' = None"
    by (simp add: off_hours_context_def)
  from e p a
    matches_iff_conditions_pass[of "\<lambda>p t. None" external_email_restriction off_hours_context
      "''email_domain''" "[Atom (SStr ''company.com'')]" None]
  show ?thesis by (auto simp: list_all_iff)
qed

section \<open>Authorization: the claims\<close>

lemma write_lead_permission: "map_action_to_permission ''write'' (Some ''lead'') = Some WRITE_LEADS"
  by (simp add: map_action_to_permission_def)

lemma rbac_sample_system: "rbac sample_system = initialize_default_roles sample_tables"
  by (simp add: sample_system_def GovernanceSystem_init_def sample_tables_def)

lemma viewer_permissions: "query_permissions (rbac sample_system) ''u1'' = {READ_LEADS, READ_ACCOUNTS, READ_OPPORTUNITIES, VIEW_ANALYTICS}"
  by (simp add: rbac_sample_system initialize_default_roles_def sample_tables_def default_roles_def
      query_permissions_def value_of_def permission_values_def Permission_of_def)

lemma sample_rbac_tables:
  "initialize_default_roles sample_tables =
     \<lparr>roles = map fst default_roles,
      user_roles = [(''alice'', ''sales_manager''), (''bob'', ''admin''), (''u1'', ''viewer'')],
      role_permissions = concat (map (\<lambda>(role, perms). map (\<lambda>p. (role, value_of p)) perms) default_roles),
      permission_cache = Map.empty, cache_timestamps = Map.empty\<rparr>"
  by (simp add: initialize_default_roles_def sample_tables_def default_roles_def)

lemma sample_caches:
  "permission_cache (rbac sample_system) = Map.empty"
  "cache_timestamps (rbac sample_system) = Map.empty"
  by (simp_all add: rbac_sample_system sample_rbac_tables)

lemma u1_cannot_write: "\<not> fst (has_permission t (rbac sample_system) ''u1'' WRITE_LEADS)"
  by (simp add: has_permission_def get_user_permissions_def sample_caches viewer_permissions)

text \<open>
  Claim C4. When the lookup table names a permission for the action and resource type
  and the permission check answers no, \<^verbatim>\<open>authorize_action\<close> returns without raising:
  it appends exactly one audit row, of type PERMISSION_DENIED and with an empty list of
  policy violations, returns \<^verbatim>\<open>authorized = False\<close> with the reason
  \<^verbatim>\<open>insufficient_permissions\<close>, makes no call of \<^verbatim>\<open>enforce_policy\<close> and queues no
  approval; its result is the same whatever rules the policy engine holds.
\<close>

theorem authorize_action_insufficient_permissions:
  assumes "map_action_to_permission act rtype = Some p"
      and "\<not> fst (has_permission (clock amb) (rbac g) user p)"
  shows "\<exists>g' r. authorize_action re amb g user act rtype rid ctx = (g', Inr r)
     \<and> audit g' = audit g @
          [\<lparr>audit_id = audit_uuid amb, event_type = PERMISSION_DENIED, al_user_id = user,
            al_resource_type = rtype, al_resource_id = rid, al_action = act,
            details = full_context_of amb user act rtype rid ctx,
            policy_violations = []\<rparr>]
     \<and> authorized r = False \<and> reason r = Some ''insufficient_permissions''
     \<and> a_violations r = None \<and> policy_result r = None
     \<and> enforce_calls g' = enforce_calls g
     \<and> approval_queue g' = approval_queue g
     \<and> (\<forall>pols. snd (authorize_action re amb (g\<lparr>policy_engine := pols\<rparr>) user act rtype rid ctx)
               = Inr r)"
  using assms
  by (auto simp: authorize_action_def Let_def log_event_def split: prod.splits)

theorem authorize_action_insufficient_permissions_witness:
  "map_action_to_permission ''write'' (Some ''lead'') = Some WRITE_LEADS
   \<and> \<not> fst (has_permission (clock (moment 0 ''0'')) (rbac sample_system) ''u1'' WRITE_LEADS)
   \<and> (\<exists>g' r. authorize_action (\<lambda>p t. None) (moment 0 ''0'') sample_system ''u1'' ''write''
                  (Some ''lead'') (Some ''L1'') None = (g', Inr r)
          \<and> reason r = Some ''insufficient_permissions'' \<and> authorized r = False
          \<and> map event_type (audit g') = [PERMISSION_DENIED]
          \<and> map policy_violations (audit g') = [[]]
          \<and> enforce_calls g' = 0)"
proof -
  have a: "audit sample_system = []" and e: "enforce_calls sample_system = 0"
    by (simp_all add: sample_system_def GovernanceSystem_init_def)
  from authorize_action_insufficient_permissions[where amb = "moment 0 ''0''"
      and re = "\<lambda>p t. None" and rid = "Some ''L1''" and ctx = None, OF write_lead_permission u1_cannot_write]
  obtain g' r where f:
    "authorize_action (\<lambda>p t. None) (moment 0 ''0'') sample_system ''u1'' ''write''
        (Some ''lead'') (Some ''L1'') None = (g', Inr r)"
    "reason r = Some ''insufficient_permissions''" "authorized r = False"
    "map event_type (audit g') = [PERMISSION_DENIED]"
    "map policy_violations (audit g') = [[]]"
    "enforce_calls g' = 0"
    using a e by auto
  show ?thesis
    using write_lead_permission u1_cannot_write[of "clock (moment 0 ''0'')"] f
    by (intro conjI exI[of _ g'] exI[of _ r]) simp_all
qed

section \<open>Approvals: the claim\<close>

lemma queued_pending:
  "map_option status (approval_queue queued_system ''approval-0'') = Some ''pending''"
  by code_simp

lemma approved_status:
  "map_option status (approval_queue approved_system ''approval-0'') = Some ''approved''"
  by code_simp

lemma approved_approver:
  "map_option approver_user_id (approval_queue approved_system ''approval-0'')
     = Some (Some ''alice'')"
  by code_simp

lemma approved_time:
  "map_option approved_at (approval_queue approved_system ''approval-0'') = Some (Some 10)"
  by code_simp

lemma second_call_succeeds:
  "success (snd (approve_action (moment 20 ''2'') approved_system ''approval-0'' ''bob''
                   False None))"
  by code_simp

lemma second_call_status:
  "map_option status
     (approval_queue
        (fst (approve_action (moment 20 ''2'') approved_system ''approval-0'' ''bob'' False None))
        ''approval-0'') = Some ''denied''"
  by code_simp

lemma second_call_approver:
  "map_option approver_user_id
     (approval_queue
        (fst (approve_action (moment 20 ''2'') approved_system ''approval-0'' ''bob'' False None))
        ''approval-0'') = Some (Some ''bob'')"
  by code_simp

lemma second_call_time:
  "map_option approved_at
     (approval_queue
        (fst (approve_action (moment 20 ''2'') approved_system ''approval-0'' ''bob'' False None))
        ''approval-0'') = Some (Some 20)"
  by code_simp

lemma approved_request_present:
  "approval_queue approved_system ''approval-0'' \<noteq> None"
  by code_simp

lemma bob_may_approve:
  "fst (has_permission (clock (moment 20 ''2'')) (rbac approved_system) ''bob''
          APPROVE_AI_DECISIONS)"
  by code_simp

text \<open>
  Claim C5 fails as stated. A request that \<^verbatim>\<open>alice\<close> approved at time 10 is denied by
  \<^verbatim>\<open>bob\<close> at time 20: the second call succeeds, and the stored status, approver and
  time of approval are those of the second call.
\<close>

theorem approve_action_resolved_again:
  "map_option status (approval_queue queued_system ''approval-0'') = Some ''pending''
   \<and> map_option status (approval_queue approved_system ''approval-0'') = Some ''approved''
   \<and> map_option approver_user_id (approval_queue approved_system ''approval-0'')
       = Some (Some ''alice'')
   \<and> map_option approved_at (approval_queue approved_system ''approval-0'') = Some (Some 10)
   \<and> success (snd (approve_action (moment 20 ''2'') approved_system ''approval-0'' ''bob''
                     False None))
   \<and> map_option status
       (approval_queue
          (fst (approve_action (moment 20 ''2'') approved_system ''approval-0'' ''bob'' False None))
          ''approval-0'') = Some ''denied''
   \<and> map_option approver_user_id
       (approval_queue
          (fst (approve_action (moment 20 ''2'') approved_system ''approval-0'' ''bob'' False None))
          ''approval-0'') = Some (Some ''bob'')
   \<and> map_option approved_at
       (approval_queue
          (fst (approve_action (moment 20 ''2'') approved_system ''approval-0'' ''bob'' False None))
          ''approval-0'') = Some (Some 20)"
  using queued_pending approved_status approved_approver approved_time second_call_succeeds
    second_call_status second_call_approver second_call_time
  by (intro conjI)

lemma approve_action_granted:
  assumes "approval_queue g aid = Some req"
      and "fst (has_permission (clock amb) (rbac g) approver APPROVE_AI_DECISIONS)"
  shows "\<exists>g' r. approve_action amb g aid approver approved cmts = (g', r)
     \<and> success r = True \<and> r_approved r = Some approved
     \<and> approval_queue g' aid =
         Some (req\<lparr>status := (if approved then ''approved'' else ''denied''),
                   approver_user_id := Some approver,
                   approved_at := Some (clock amb),
                   comments := cmts\<rparr>)
     \<and> map_option status (approval_queue g' aid) \<noteq> Some ''pending''"
  using assms
  by (auto simp: approve_action_def Let_def split: prod.splits)

text \<open>
  Claim C5, amended. For an approval id in the queue and an approver who holds the
  approve permission, \<^verbatim>\<open>approve_action\<close> succeeds whatever the status of the request
  was: the stored status becomes \<^verbatim>\<open>approved\<close> or \<^verbatim>\<open>denied\<close> as the call says (so it is
  not \<^verbatim>\<open>pending\<close> afterwards), and the approver, the time and the comments are those of
  this call. A request that was resolved already is overwritten in the same way.
\<close>

theorem approve_action_overwrites:
  assumes "approval_queue g aid = Some req"
      and "fst (has_permission (clock amb) (rbac g) approver APPROVE_AI_DECISIONS)"
  shows "\<exists>g' r. approve_action amb g aid approver approved cmts = (g', r)
     \<and> success r = True \<and> r_approved r = Some approved
     \<and> approval_queue g' aid =
         Some (req\<lparr>status := (if approved then ''approved'' else ''denied''),
                   approver_user_id := Some approver,
                   approved_at := Some (clock amb),
                   comments := cmts\<rparr>)
     \<and> map_option status (approval_queue g' aid) \<noteq> Some ''pending''"
  using assms by (rule approve_action_granted)

theorem approve_action_overwrites_witness:
  "approval_queue approved_system ''approval-0''
     = Some (the (approval_queue approved_system ''approval-0''))
   \<and> fst (has_permission (clock (moment 20 ''2'')) (rbac approved_system) ''bob''
            APPROVE_AI_DECISIONS)
   \<and> (\<exists>g' r. approve_action (moment 20 ''2'') approved_system ''approval-0'' ''bob'' False None
                = (g', r)
          \<and> success r = True \<and> r_approved r = Some False
          \<and> map_option status (approval_queue g' ''approval-0'') = Some ''denied''
          \<and> map_option approver_user_id (approval_queue g' ''approval-0'') = Some (Some ''bob''))"
proof -
  have q: "approval_queue approved_system ''approval-0''
             = Some (the (approval_queue approved_system ''approval-0''))"
    using approved_request_present by simp
  from approve_action_overwrites[OF q bob_may_approve, of False None]
  obtain g' r where f:
    "approve_action (moment 20 ''2'') approved_system ''approval-0'' ''bob'' False None = (g', r)"
    "success r = True" "r_approved r = Some False"
    "approval_queue g' ''approval-0'' =
       Some ((the (approval_queue approved_system ''approval-0''))
               \<lparr>status := ''denied'', approver_user_id := Some ''bob'',
                approved_at := Some (clock (moment 20 ''2'')), comments := None\<rparr>)"
    by auto
  show ?thesis
    using q bob_may_approve f
    by (intro conjI exI[of _ g'] exI[of _ r]) simp_all
qed

section \<open>Workflow engine: the claims\<close>

lemma sample_trigger:
  "trigger_workflow sample_engine ''x1'' ''wf'' Map.empty ''manual'' = Inr sample_run"
  by (simp add: trigger_workflow_def sample_engine_def sample_run_def)

lemma sample_workflow_found: "workflows sample_engine ''wf'' = Some sample_workflow"
  by (simp add: sample_engine_def)

lemma sample_events:
  "events sample_run =
     [Started ''A'', Failed ''A'', Started ''B'', Completed ''B'', Started ''C'', Completed ''C'']"
  by code_simp


lemma sample_remaining: "map fst (remaining_steps sample_run) = [''D'']"
  by code_simp

lemma sample_completed: "completed_steps sample_run = {''B'', ''C''}"
  by code_simp

lemma sample_failed: "failed_steps sample_run = {''A''}"
  by code_simp

lemma sample_dict:
  "remaining_of (steps sample_workflow) =
     [(''A'', sample_step ''A'' []), (''B'', sample_step ''B'' []),
      (''C'', sample_step ''C'' [''B'']), (''D'', sample_step ''D'' [''A''])]"
  by (simp add: remaining_of_def sample_workflow_def sample_step_def)



lemma sample_A_never_returns:
  "\<not> step_returns (executors sample_engine) (sample_step ''A'' []) c"
  by (simp add: step_returns_def sample_engine_def slow_on_def step_timeout_def sample_step_def)





text \<open>
  Claim C7. A step is selected as ready only when every id in its \<^verbatim>\<open>dependencies\<close> is in
  \<^verbatim>\<open>completed_steps\<close>. And in the log of a run started by \<^verbatim>\<open>trigger_workflow\<close>, whenever
  the step registered under an id starts, each of its dependencies was completed before:
  a step \<^verbatim>\<open>B\<close> that depends on \<^verbatim>\<open>A\<close> never starts before \<^verbatim>\<open>A\<close> has completed.
\<close>

theorem ready_only_after_dependencies:
  "(st \<in> set (ready_steps s) \<longrightarrow> set (dependencies st) \<subseteq> completed_steps s)
   \<and> (trigger_workflow engine uuid wid cd origin = Inr r \<longrightarrow>
        workflows engine wid = Some wdef \<longrightarrow>
        events r = pre @ Started b # post \<longrightarrow>
        (b, st') \<in> set (remaining_of (steps wdef)) \<longrightarrow>
        a \<in> set (dependencies st') \<longrightarrow> Completed a \<in> set pre)"
proof (intro conjI impI)
  assume "st \<in> set (ready_steps s)"
  then show "set (dependencies st) \<subseteq> completed_steps s"
    by (auto simp: ready_steps_def list_all_iff)
next
  assume t: "trigger_workflow engine uuid wid cd origin = Inr r"
     and w: "workflows engine wid = Some wdef"
     and e: "events r = pre @ Started b # post"
     and m: "(b, st') \<in> set (remaining_of (steps wdef))"
     and d: "a \<in> set (dependencies st')"
  from trigger_workflow_inv[OF t] w obtain hist where
    inv: "run_inv (remaining_of (steps wdef)) hist r" by auto
  note p = run_invD[OF inv]
  from e p(1) have "concat (map block hist) = pre @ Started b # post" by simp
  from blocks_split[OF this] obtain h1 ok h2 where
    h: "hist = h1 @ (b, ok) # h2" and pre: "pre = concat (map block h1)" by blast
  from p(7) h m have "set (dependencies st') \<subseteq> {a. (a, True) \<in> set h1}"
    by (metis deps_ok_split)
  with d have "(a, True) \<in> set h1" by auto
  then have "Completed a \<in> set (concat (map block h1))" by (simp only: Completed_in_blocks)
  with pre show "Completed a \<in> set pre" by simp
qed

lemma sample_ready:
  "sample_step ''C'' [''B''] \<in>
     set (ready_steps
            ((start_run (new_execution sample_workflow ''x1'' ''wf'' Map.empty ''manual'')
                (steps sample_workflow))\<lparr>completed_steps := {''B''}\<rparr>))"
  by code_simp

theorem ready_only_after_dependencies_witness:
  "sample_step ''C'' [''B''] \<in>
     set (ready_steps
            ((start_run (new_execution sample_workflow ''x1'' ''wf'' Map.empty ''manual'')
                (steps sample_workflow))\<lparr>completed_steps := {''B''}\<rparr>))
   \<and> set (dependencies (sample_step ''C'' [''B''])) \<subseteq> {''B''}
   \<and> trigger_workflow sample_engine ''x1'' ''wf'' Map.empty ''manual'' = Inr sample_run
   \<and> workflows sample_engine ''wf'' = Some sample_workflow
   \<and> events sample_run =
       [Started ''A'', Failed ''A'', Started ''B'', Completed ''B'']
         @ Started ''C'' # [Completed ''C'']
   \<and> (''C'', sample_step ''C'' [''B'']) \<in> set (remaining_of (steps sample_workflow))
   \<and> ''B'' \<in> set (dependencies (sample_step ''C'' [''B'']))
   \<and> Completed ''B'' \<in> set [Started ''A'', Failed ''A'', Started ''B'', Completed ''B'']"
proof -
  let ?s = "(start_run (new_execution sample_workflow ''x1'' ''wf'' Map.empty ''manual'')
                (steps sample_workflow))\<lparr>completed_steps := {''B''}\<rparr>"
  let ?pre = "[Started ''A'', Failed ''A'', Started ''B'', Completed ''B'']"
  have e: "events sample_run = ?pre @ Started ''C'' # [Completed ''C'']"
    by (simp add: sample_events)
  have m: "(''C'', sample_step ''C'' [''B'']) \<in> set (remaining_of (steps sample_workflow))"
    by (simp add: sample_dict)
  have d: "''B'' \<in> set (dependencies (sample_step ''C'' [''B'']))"
    by (simp add: sample_step_def)
  note inst = ready_only_after_dependencies[of "sample_step ''C'' [''B'']" ?s sample_engine
      "''x1''" "''wf''" Map.empty "''manual''" sample_run sample_workflow ?pre "''C''"
      "[Completed ''C'']" "sample_step ''C'' [''B'']" "''B''"]
  from inst sample_ready have a: "set (dependencies (sample_step ''C'' [''B''])) \<subseteq> {''B''}"
    by simp
  from inst sample_trigger sample_workflow_found e m d
  have b: "Completed ''B'' \<in> set ?pre" by blast
  from sample_ready a sample_trigger sample_workflow_found e m d b show ?thesis by blast
qed

text \<open>
  Claim C10. In a run started by \<^verbatim>\<open>trigger_workflow\<close> the sets \<^verbatim>\<open>completed_steps\<close> and
  \<^verbatim>\<open>failed_steps\<close> are disjoint. The two sets hold exactly the ids the log records as
  completed and as failed, and no entry of the log occurs twice, so the sets are disjoint
  at every moment of the run and no step starts twice. Every step that started is a key of
  the initial \<^verbatim>\<open>remaining_steps\<close>, is in exactly one of the two sets, is no longer a key
  of \<^verbatim>\<open>remaining_steps\<close>, and its start is followed at once by its completion or its
  failure.
\<close>

theorem step_sets_disjoint:
  assumes "trigger_workflow engine uuid wid cd origin = Inr r"
  shows "completed_steps r \<inter> failed_steps r = {}
       \<and> completed_steps r = {x. Completed x \<in> set (events r)}
       \<and> failed_steps r = {x. Failed x \<in> set (events r)}
       \<and> distinct (events r)
       \<and> (\<forall>x. Started x \<in> set (events r) \<longrightarrow>
              (x \<in> completed_steps r) \<noteq> (x \<in> failed_steps r))
       \<and> (\<forall>x. Started x \<in> set (events r) \<longrightarrow> x \<notin> fst ` set (remaining_steps r))
       \<and> (\<forall>wf x. workflows engine wid = Some wf \<longrightarrow> Started x \<in> set (events r) \<longrightarrow>
              x \<in> fst ` set (remaining_of (steps wf)))
       \<and> (\<forall>pre x post. events r = pre @ Started x # post \<longrightarrow>
              (\<exists>rest. post = Completed x # rest \<or> post = Failed x # rest))"
proof -
  from trigger_workflow_inv[OF assms] obtain wf hist where
    wf: "workflows engine wid = Some wf"
    and inv: "run_inv (remaining_of (steps wf)) hist r" by blast
  note p = run_invD[OF inv]
  have excl: "\<And>x. \<not> ((x, True) \<in> set hist \<and> (x, False) \<in> set hist)"
    using p(2) by (metis eq_key_imp_eq_value)
  have c1: "completed_steps r \<inter> failed_steps r = {}"
    using excl by (auto simp: p(3) p(4))
  have c2: "completed_steps r = {x. Completed x \<in> set (events r)}"
    by (simp only: p(1) p(3) Completed_in_blocks)
  have c3: "failed_steps r = {x. Failed x \<in> set (events r)}"
    by (simp only: p(1) p(4) Failed_in_blocks)
  have c4: "distinct (events r)"
    by (simp only: p(1) distinct_blocks[OF p(2)])
  have started: "\<And>x. Started x \<in> set (events r) \<longleftrightarrow> x \<in> fst ` set hist"
    by (simp only: p(1) Started_in_blocks)
  have c5: "\<forall>x. Started x \<in> set (events r) \<longrightarrow>
              (x \<in> completed_steps r) \<noteq> (x \<in> failed_steps r)"
  proof (intro allI impI)
    fix x assume "Started x \<in> set (events r)"
    then have "x \<in> fst ` set hist" by (simp only: started)
    then obtain ok where "(x, ok) \<in> set hist" by auto
    then have "(x, True) \<in> set hist \<or> (x, False) \<in> set hist" by (cases ok) simp_all
    with excl[of x] show "(x \<in> completed_steps r) \<noteq> (x \<in> failed_steps r)"
      by (auto simp: p(3) p(4))
  qed
  have c6: "\<forall>x. Started x \<in> set (events r) \<longrightarrow> x \<notin> fst ` set (remaining_steps r)"
  proof (intro allI impI notI)
    fix x assume "Started x \<in> set (events r)"
    then have a: "x \<in> fst ` set hist" by (simp only: started)
    assume "x \<in> fst ` set (remaining_steps r)"
    then obtain v where "(x, v) \<in> set (remaining_steps r)" by auto
    then have "x \<notin> fst ` set hist" by (simp add: p(5))
    with a show False by simp
  qed
  have c7: "\<forall>wf' x. workflows engine wid = Some wf' \<longrightarrow> Started x \<in> set (events r) \<longrightarrow>
              x \<in> fst ` set (remaining_of (steps wf'))"
    using wf p(6) by (auto simp: started)
  have c8: "\<forall>pre x post. events r = pre @ Started x # post \<longrightarrow>
              (\<exists>rest. post = Completed x # rest \<or> post = Failed x # rest)"
  proof (intro allI impI)
    fix pre x post assume "events r = pre @ Started x # post"
    with p(1) have "concat (map block hist) = pre @ Started x # post" by simp
    from blocks_split[OF this] obtain ok h2 where
      "post = (if ok then Completed x else Failed x) # concat (map block h2)" by blast
    then show "\<exists>rest. post = Completed x # rest \<or> post = Failed x # rest"
      by (cases ok) simp_all
  qed
  from c1 c2 c3 c4 c5 c6 c7 c8 show ?thesis by (intro conjI)
qed

theorem step_sets_disjoint_witness:
  "trigger_workflow sample_engine ''x1'' ''wf'' Map.empty ''manual'' = Inr sample_run
   \<and> completed_steps sample_run \<inter> failed_steps sample_run = {}
   \<and> distinct (events sample_run)
   \<and> Started ''A'' \<in> set (events sample_run)
   \<and> ''A'' \<in> failed_steps sample_run \<and> ''A'' \<notin> completed_steps sample_run
   \<and> ''A'' \<notin> fst ` set (remaining_steps sample_run)
   \<and> completed_steps sample_run = {''B'', ''C''} \<and> failed_steps sample_run = {''A''}"
proof -
  have s: "Started ''A'' \<in> set (events sample_run)" by (simp add: sample_events)
  from step_sets_disjoint[OF sample_trigger] s
  have "completed_steps sample_run \<inter> failed_steps sample_run = {}"
    "distinct (events sample_run)"
    "(''A'' \<in> completed_steps sample_run) \<noteq> (''A'' \<in> failed_steps sample_run)"
    "''A'' \<notin> fst ` set (remaining_steps sample_run)"
    by blast+
  with sample_trigger s sample_completed sample_failed show ?thesis by auto
qed

text \<open>
  Claim C8, at the input where the code departs from it. A placeholder whose name is
  bound in \<^verbatim>\<open>context.data\<close> only stays as it is: \<^verbatim>\<open>_substitute_variables\<close> looks the
  name up in \<^verbatim>\<open>context.variables\<close> and nowhere else. Bound in \<^verbatim>\<open>context.variables\<close>, the
  same placeholder is replaced.
\<close>

theorem substitute_variables_ignores_data:
  "substitute_variables [(''lead_id'', Atom (SStr ''${lead_id}''))]
     \<lparr>wc_workflow_id = w, execution_id = e,
      data = [''lead_id'' \<mapsto> Atom (SStr ''L1'')], variables = Map.empty\<rparr>
     = [(''lead_id'', Atom (SStr ''${lead_id}''))]
   \<and> substitute_variables [(''lead_id'', Atom (SStr ''${lead_id}''))]
     \<lparr>wc_workflow_id = w, execution_id = e,
      data = Map.empty, variables = [''lead_id'' \<mapsto> Atom (SStr ''L1'')]\<rparr>
     = [(''lead_id'', Atom (SStr ''L1''))]
   \<and> substitute_variables ps (ctx\<lparr>data := d\<rparr>) = substitute_variables ps ctx"
proof (intro conjI)
  show "substitute_variables ps (ctx\<lparr>data := d\<rparr>) = substitute_variables ps ctx"
    by (auto simp: substitute_variables_def split: pyval.splits scalar.splits)
qed (simp_all add: substitute_variables_def)

end
